theory Spec2Isabelle
  imports Complex_Main "HOL-Library.Sublist" "HOL-Library.AList" "HOL-Library.Multiset"
    "HOL-Library.Log_Nat"
begin

section \<open>Strings and character classes\<close>

text \<open>
  Strings of the program are modelled as \<^typ>\<open>string\<close>, a list of characters, each
  character standing for one code unit of the source's string (code units below 256).
  The character classes are the ones the regular expressions of \<^verbatim>\<open>census.ts\<close> name.
\<close>

definition isUpper :: "char \<Rightarrow> bool" where
  "isUpper c = (65 \<le> (of_char c :: nat) \<and> (of_char c :: nat) \<le> 90)"

definition isLower :: "char \<Rightarrow> bool" where
  "isLower c = (97 \<le> (of_char c :: nat) \<and> (of_char c :: nat) \<le> 122)"

definition isDigit :: "char \<Rightarrow> bool" where
  "isDigit c = (48 \<le> (of_char c :: nat) \<and> (of_char c :: nat) \<le> 57)"

definition isAlnum :: "char \<Rightarrow> bool" where
  "isAlnum c = (isLower c \<or> isUpper c \<or> isDigit c)"

text \<open>
  The class \<^verbatim>\<open>\s\<close> of a JavaScript regular expression, among the code units below 256:
  tab, line feed, vertical tab, form feed, carriage return, space and no-break space.
\<close>

definition isSpace :: "char \<Rightarrow> bool" where
  "isSpace c = ((of_char c :: nat) \<in> {9, 10, 11, 12, 13, 32, 160})"

definition backslash :: char where
  "backslash = CHR 0x5C"

definition newline :: char where
  "newline = CHR 0x0A"

text \<open>\<^verbatim>\<open>s.includes(p)\<close>: the string \<open>p\<close> occurs in \<open>s\<close> as a contiguous run.\<close>

fun str_includes :: "string \<Rightarrow> string \<Rightarrow> bool" where
  "str_includes [] p = (p = [])"
| "str_includes (c # cs) p = (prefix p (c # cs) \<or> str_includes cs p)"

text \<open>\<^verbatim>\<open>s.endsWith(p)\<close> and \<^verbatim>\<open>s.startsWith(p)\<close>.\<close>

definition endsWith :: "string \<Rightarrow> string \<Rightarrow> bool" where
  "endsWith s p = suffix p s"

definition startsWith :: "string \<Rightarrow> string \<Rightarrow> bool" where
  "startsWith s p = prefix p s"

section \<open>Feature classification\<close>

text \<open>
  A feature rule of the configuration (\<^verbatim>\<open>interface FeatureRule\<close>). The fields carry
  the prefix \<open>f_\<close> so that the records of this theory do not share field names.
\<close>

record FeatureRule =
  f_id :: string
  f_name :: string
  f_category :: string
  f_paths :: "string list"

text \<open>The object \<^verbatim>\<open>{ id, name, category }\<close> that \<^verbatim>\<open>classifySymbol\<close> returns.\<close>

record Classification =
  cl_id :: string
  cl_name :: string
  cl_category :: string

text \<open>\<^verbatim>\<open>'/' + relPath.replace(/\\/g, '/')\<close>\<close>

definition normalizePath :: "string \<Rightarrow> string" where
  "normalizePath relPath = CHR ''/'' # map (\<lambda>c. if c = backslash then CHR ''/'' else c) relPath"

text \<open>The inner loop of \<^verbatim>\<open>classifySymbol\<close>: does some path substring of the rule occur?\<close>

fun matchPaths :: "string \<Rightarrow> string list \<Rightarrow> bool" where
  "matchPaths normalized [] = False"
| "matchPaths normalized (p # ps) = (if str_includes normalized p then True else matchPaths normalized ps)"

definition uncategorized :: Classification where
  "uncategorized = \<lparr>cl_id = ''uncategorized'', cl_name = ''Uncategorized'', cl_category = ''Unknown''\<rparr>"

text \<open>The outer loop of \<^verbatim>\<open>classifySymbol\<close>, over the rules in declared order.\<close>

fun classifyNormalized :: "string \<Rightarrow> FeatureRule list \<Rightarrow> Classification" where
  "classifyNormalized normalized [] = uncategorized"
| "classifyNormalized normalized (feat # feats) =
     (if matchPaths normalized (f_paths feat)
      then \<lparr>cl_id = f_id feat, cl_name = f_name feat, cl_category = f_category feat\<rparr>
      else classifyNormalized normalized feats)"

definition classifySymbol :: "string \<Rightarrow> FeatureRule list \<Rightarrow> Classification" where
  "classifySymbol relPath features = classifyNormalized (normalizePath relPath) features"

text \<open>The classification a rule stands for, and whether a rule matches a relative path.\<close>

definition ruleResult :: "FeatureRule \<Rightarrow> Classification" where
  "ruleResult feat = \<lparr>cl_id = f_id feat, cl_name = f_name feat, cl_category = f_category feat\<rparr>"

definition ruleMatches :: "string \<Rightarrow> FeatureRule \<Rightarrow> bool" where
  "ruleMatches relPath feat = (\<exists>p \<in> set (f_paths feat). sublist p (normalizePath relPath))"

section \<open>Entry normalisation\<close>

text \<open>
  A raw entry of the extractor (\<^verbatim>\<open>interface CtagsEntry\<close>, fields prefixed \<open>e_\<close>) and a
  canonical symbol (\<^verbatim>\<open>interface Symbol\<close>, fields prefixed \<open>s_\<close>). Optional fields are
  options.
\<close>

record CtagsEntry =
  e_name :: string
  e_path :: string
  e_line :: nat
  e_kind :: string
  e_scope :: "string option"
  e_scopeKind :: "string option"
  e_pattern :: "string option"

datatype SymbolKind = Function | Method | Class

record Symbol =
  s_name :: string
  s_kind :: SymbolKind
  s_file :: string
  s_line :: nat
  s_scope :: "string option"
  s_signature :: "string option"
  s_feature :: string
  s_featureName :: string

definition FUNCTION_KINDS :: "string set" where
  "FUNCTION_KINDS = {''function'', ''generator''}"

definition METHOD_KINDS :: "string set" where
  "METHOD_KINDS = {''method''}"

definition CLASS_KINDS :: "string set" where
  "CLASS_KINDS = {''class'', ''object''}"

definition NOISE_NAMES :: "string set" where
  "NOISE_NAMES = {''<lambda>'', ''<anonymous>'', ''anonymous'', ''module.exports''}"

text \<open>\<^verbatim>\<open>/^[A-Z][a-zA-Z0-9]+$/.test(name)\<close>\<close>

definition isPascalCase :: "string \<Rightarrow> bool" where
  "isPascalCase name =
     (case name of [] \<Rightarrow> False | c # cs \<Rightarrow> isUpper c \<and> cs \<noteq> [] \<and> list_all isAlnum cs)"

text \<open>\<^verbatim>\<open>/^use[A-Z]/.test(name)\<close>\<close>

definition isHook :: "string \<Rightarrow> bool" where
  "isHook name =
     (prefix ''use'' name \<and> (case drop 3 name of [] \<Rightarrow> False | c # cs \<Rightarrow> isUpper c))"

text \<open>\<^verbatim>\<open>/^[a-z][a-zA-Z0-9]+$/.test(name)\<close>\<close>

definition isCamelCase :: "string \<Rightarrow> bool" where
  "isCamelCase name =
     (case name of [] \<Rightarrow> False | c # cs \<Rightarrow> isLower c \<and> cs \<noteq> [] \<and> list_all isAlnum cs)"

text \<open>\<^verbatim>\<open>s.trim()\<close> removes white space and line terminators at both ends.\<close>

definition trim :: "string \<Rightarrow> string" where
  "trim s = rev (dropWhile isSpace (rev (dropWhile isSpace s)))"

text \<open>\<^verbatim>\<open>pattern.replace(/^\/\^/, '').replace(/\$\/$/, '').trim()\<close>\<close>

definition cleanSignature :: "string \<Rightarrow> string" where
  "cleanSignature pattern =
     (let a = (if startsWith pattern ''/^'' then drop 2 pattern else pattern);
          b = (if endsWith a ''$/'' then take (length a - 2) a else a)
      in trim b)"

text \<open>
  The chain of tests that determines the normalised kind of an entry; \<open>None\<close> is the
  \<^verbatim>\<open>continue\<close> of the loop.
\<close>

definition normalizeKind :: "CtagsEntry \<Rightarrow> SymbolKind option" where
  "normalizeKind entry =
     (if e_kind entry \<in> FUNCTION_KINDS then Some Function
      else if e_kind entry \<in> METHOD_KINDS then Some Method
      else if e_kind entry \<in> CLASS_KINDS then Some Class
      else if e_kind entry = ''constant'' then
        (let isTsx = endsWith (e_path entry) ''.tsx'' in
         if isPascalCase (e_name entry) \<or> isHook (e_name entry) then Some Function
         else if isTsx \<and> isCamelCase (e_name entry) then Some Function
         else None)
      else None)"

text \<open>
  The body of the first loop of \<^verbatim>\<open>filterSymbols\<close>. The library function
  \<^verbatim>\<open>path.relative(repoRoot, \<cdot>)\<close> is the parameter \<open>relative\<close>.
\<close>

definition filterEntry :: "(string \<Rightarrow> string) \<Rightarrow> CtagsEntry \<Rightarrow> Symbol option" where
  "filterEntry relative entry =
     (if e_name entry \<in> NOISE_NAMES then None
      else if startsWith (e_name entry) ''__'' then None
      else case normalizeKind entry of
        None \<Rightarrow> None
      | Some kind \<Rightarrow>
          Some \<lparr>s_name = e_name entry, s_kind = kind, s_file = relative (e_path entry),
                s_line = e_line entry, s_scope = e_scope entry,
                s_signature = map_option cleanSignature (e_pattern entry),
                s_feature = [], s_featureName = []\<rparr>)"

fun filterPass :: "(string \<Rightarrow> string) \<Rightarrow> Symbol list \<Rightarrow> CtagsEntry list \<Rightarrow> Symbol list" where
  "filterPass relative symbols [] = symbols"
| "filterPass relative symbols (entry # entries) =
     (case filterEntry relative entry of
        None \<Rightarrow> filterPass relative symbols entries
      | Some symb \<Rightarrow> filterPass relative (symbols @ [symb]) entries)"

section \<open>Orphan scanner\<close>

text \<open>The set \<^verbatim>\<open>tsxFiles\<close>, in insertion order.\<close>

fun collectTsxFiles :: "(string \<Rightarrow> string) \<Rightarrow> string list \<Rightarrow> CtagsEntry list \<Rightarrow> string list" where
  "collectTsxFiles relative tsxFiles [] = tsxFiles"
| "collectTsxFiles relative tsxFiles (entry # entries) =
     (let rel = relative (e_path entry) in
      if (endsWith rel ''.tsx'' \<or> endsWith rel ''.jsx'') \<and> rel \<notin> set tsxFiles
      then collectTsxFiles relative (tsxFiles @ [rel]) entries
      else collectTsxFiles relative tsxFiles entries)"

text \<open>
  The regular expression
  \<^verbatim>\<open>/export\s+(?:default\s+)?(?:const|function)\s+([A-Z][a-zA-Z0-9]*)/g\<close>
  tried at the start of a string. Every white-space run is followed by a letter, the
  optional group and the alternatives start with different letters, and the name is the
  last item, so the greedy choice below is the only way the expression can match:
  \<open>matchLit\<close> consumes a literal, \<open>spaces1\<close> a non-empty white-space run. The result is
  the captured name and the length of the whole match.
\<close>

definition matchLit :: "string \<Rightarrow> string \<Rightarrow> string option" where
  "matchLit lit s = (if prefix lit s then Some (drop (length lit) s) else None)"

definition spaces1 :: "string \<Rightarrow> string option" where
  "spaces1 s = (case s of [] \<Rightarrow> None | c # cs \<Rightarrow> if isSpace c then Some (dropWhile isSpace cs) else None)"

definition matchExportAt :: "string \<Rightarrow> (string \<times> nat) option" where
  "matchExportAt s =
     (case matchLit ''export'' s of None \<Rightarrow> None | Some s1 \<Rightarrow>
      case spaces1 s1 of None \<Rightarrow> None | Some s2 \<Rightarrow>
      let s3 = (case matchLit ''default'' s2 of None \<Rightarrow> s2
                | Some t \<Rightarrow> (case spaces1 t of None \<Rightarrow> s2 | Some t' \<Rightarrow> t')) in
      case (case matchLit ''const'' s3 of Some u \<Rightarrow> Some u | None \<Rightarrow> matchLit ''function'' s3) of
        None \<Rightarrow> None | Some s4 \<Rightarrow>
      case spaces1 s4 of None \<Rightarrow> None | Some s5 \<Rightarrow>
      case s5 of [] \<Rightarrow> None | c # cs \<Rightarrow>
        if isUpper c
        then (let name = c # takeWhile isAlnum cs
              in Some (name, length s - length s5 + length name))
        else None)"

text \<open>
  The loop \<^verbatim>\<open>while ((match = exportRe.exec(src)) !== null)\<close>: the matches of the
  expression from left to right, each search resuming where the last match ended. A match
  is the triple of \<^verbatim>\<open>match.index\<close>, \<^verbatim>\<open>match[1]\<close> and \<^verbatim>\<open>match[0]\<close>; \<open>off\<close> is the
  offset of \<open>s\<close> in the file.
\<close>

function exportMatches :: "nat \<Rightarrow> string \<Rightarrow> (nat \<times> string \<times> string) list" where
  "exportMatches off s =
     (case matchExportAt s of
        Some (name, len) \<Rightarrow> (off, name, take len s) # exportMatches (off + len) (drop len s)
      | None \<Rightarrow> (case s of [] \<Rightarrow> [] | c # cs \<Rightarrow> exportMatches (off + 1) cs))"
  by pat_completeness auto
termination
proof (relation "measure (\<lambda>(off, s). length s)")
  show "wf (measure (\<lambda>(off, s). length s))" by simp
next
  fix off :: nat and s :: string and x2 :: "string \<times> nat" and name :: string and len :: nat
  assume m: "matchExportAt s = Some x2" and x: "(name, len) = x2"
  from m x have "prefix ''export'' s" "0 < len"
    by (auto simp: matchExportAt_def matchLit_def Let_def
        split: option.splits list.splits if_splits)
  then have "s \<noteq> []" by auto
  with \<open>0 < len\<close> show "((off + len, drop len s), (off, s)) \<in> measure (\<lambda>(off, s). length s)"
    by simp
next
  fix off :: nat and s :: string and c :: char and cs :: string
  assume "s = c # cs"
  then show "((off + 1, cs), (off, s)) \<in> measure (\<lambda>(off, s). length s)" by simp
qed

declare exportMatches.simps [simp del]

text \<open>\<^verbatim>\<open>s.split('\n')\<close>, for a separator of one character.\<close>

fun split_str :: "char \<Rightarrow> string \<Rightarrow> string list" where
  "split_str sep [] = ['''']"
| "split_str sep (c # cs) =
     (if c = sep then [] # split_str sep cs
      else (case split_str sep cs of [] \<Rightarrow> [c # ''''] | h # t \<Rightarrow> (c # h) # t))"

text \<open>\<^verbatim>\<open>src.substring(0, match.index).split('\n').length\<close>\<close>

definition lineOf :: "string \<Rightarrow> nat \<Rightarrow> nat" where
  "lineOf src idx = length (split_str newline (take idx src))"

text \<open>The body of the \<^verbatim>\<open>while\<close> loop, over the matches of one file.\<close>

fun scanMatches :: "string \<Rightarrow> string \<Rightarrow> Symbol list \<Rightarrow> (nat \<times> string \<times> string) list \<Rightarrow> Symbol list" where
  "scanMatches relFile src symbols [] = symbols"
| "scanMatches relFile src symbols ((idx, name, text) # ms) =
     (if list_ex (\<lambda>s. s_file s = relFile \<and> s_name s = name) symbols
      then scanMatches relFile src symbols ms
      else scanMatches relFile src
             (symbols @ [\<lparr>s_name = name, s_kind = Function, s_file = relFile,
                          s_line = lineOf src idx, s_scope = None,
                          s_signature = Some (trim text),
                          s_feature = [], s_featureName = []\<rparr>]) ms)"

text \<open>
  The loop over \<^verbatim>\<open>tsxFiles\<close>. The parameter \<open>readFile\<close> is
  \<^verbatim>\<open>fs.readFileSync(path.join(repoRoot, relFile), 'utf-8')\<close>, with \<open>None\<close> where the
  read throws; the \<^verbatim>\<open>catch {}\<close> then leaves the symbols as they are.
\<close>

fun scanFiles :: "(string \<Rightarrow> string option) \<Rightarrow> Symbol list \<Rightarrow> string list \<Rightarrow> Symbol list" where
  "scanFiles readFile symbols [] = symbols"
| "scanFiles readFile symbols (relFile # files) =
     (case readFile relFile of
        None \<Rightarrow> scanFiles readFile symbols files
      | Some src \<Rightarrow>
          scanFiles readFile (scanMatches relFile src symbols (exportMatches 0 src)) files)"

definition filterSymbols ::
  "(string \<Rightarrow> string) \<Rightarrow> (string \<Rightarrow> string option) \<Rightarrow> CtagsEntry list \<Rightarrow> Symbol list" where
  "filterSymbols relative readFile entries =
     scanFiles readFile (filterPass relative [] entries) (collectTsxFiles relative [] entries)"

section \<open>Aggregation by feature\<close>

text \<open>
  A bucket (\<^verbatim>\<open>interface FeatureReport\<close>, fields prefixed \<open>r_\<close>), an entry of its
  \<^verbatim>\<open>topFiles\<close> (prefix \<open>t_\<close>) and a churn record (\<^verbatim>\<open>interface FileChurn\<close>, prefix \<open>c_\<close>).
  The counts of symbols, commits and changed lines are natural numbers, which the doubles
  of the source hold exactly below \<open>2\<^sup>5\<^sup>3\<close>. The hotspot score is an integer. A field marked \<^verbatim>\<open>?\<close> in the source is an option, \<open>None\<close> being
  \<^verbatim>\<open>undefined\<close>.
\<close>

record TopFile =
  t_path :: string
  t_commits :: nat
  t_churn :: nat

record FeatureReport =
  r_id :: string
  r_name :: string
  r_category :: string
  r_functions :: nat
  r_methods :: nat
  r_classes :: nat
  r_total :: nat
  r_commits :: "nat option"
  r_churn :: "nat option"
  r_hotspotScore :: "int option"
  r_topFiles :: "TopFile list option"

record FileChurn =
  c_path :: string
  c_commits :: nat
  c_additions :: nat
  c_deletions :: nat
  c_churn :: nat

text \<open>
  The \<^verbatim>\<open>Map<string, FeatureReport>\<close> is an association list in insertion order:
  \<^verbatim>\<open>featureMap.get\<close> is \<^const>\<open>map_of\<close>, \<^verbatim>\<open>featureMap.set\<close> is \<^const>\<open>AList.update\<close>
  (an existing key keeps its place, a new key goes to the end), \<^verbatim>\<open>featureMap.values()\<close>
  is \<open>map snd\<close>. A bucket object mutated through its reference is written back under
  its key.
\<close>

type_synonym FeatureMap = "(string \<times> FeatureReport) list"

definition newReport :: "string \<Rightarrow> string \<Rightarrow> string \<Rightarrow> FeatureReport" where
  "newReport i n c =
     \<lparr>r_id = i, r_name = n, r_category = c,
      r_functions = 0, r_methods = 0, r_classes = 0, r_total = 0,
      r_commits = None, r_churn = None, r_hotspotScore = None, r_topFiles = None\<rparr>"

text \<open>Step 3 of \<^verbatim>\<open>main\<close>: every symbol receives the feature of its file.\<close>

definition classifyAll :: "FeatureRule list \<Rightarrow> Symbol list \<Rightarrow> Symbol list" where
  "classifyAll features symbols =
     map (\<lambda>symb. let c = classifySymbol (s_file symb) features
                  in symb\<lparr>s_feature := cl_id c, s_featureName := cl_name c\<rparr>) symbols"

text \<open>Step 4: the buckets seeded from the configuration, then the sentinel bucket.\<close>

fun seedFeatures :: "FeatureMap \<Rightarrow> FeatureRule list \<Rightarrow> FeatureMap" where
  "seedFeatures m [] = m"
| "seedFeatures m (feat # feats) =
     seedFeatures (AList.update (f_id feat) (newReport (f_id feat) (f_name feat) (f_category feat)) m) feats"

definition seedFeatureMap :: "FeatureRule list \<Rightarrow> FeatureMap" where
  "seedFeatureMap features =
     AList.update ''uncategorized'' (newReport ''uncategorized'' ''Uncategorized'' ''Unknown'')
       (seedFeatures [] features)"

definition countSymbol :: "Symbol \<Rightarrow> FeatureReport \<Rightarrow> FeatureReport" where
  "countSymbol symb report =
     (let counted =
        (case s_kind symb of
           Function \<Rightarrow> report\<lparr>r_functions := r_functions report + 1\<rparr>
         | Method \<Rightarrow> report\<lparr>r_methods := r_methods report + 1\<rparr>
         | Class \<Rightarrow> report\<lparr>r_classes := r_classes report + 1\<rparr>)
      in counted\<lparr>r_total := r_total counted + 1\<rparr>)"

definition aggregateSymbol :: "FeatureMap \<Rightarrow> Symbol \<Rightarrow> FeatureMap" where
  "aggregateSymbol m symb =
     (case map_of m (s_feature symb) of
        Some report \<Rightarrow> AList.update (s_feature symb) (countSymbol symb report) m
      | None \<Rightarrow>
          AList.update (s_feature symb)
            (countSymbol symb (newReport (s_feature symb) (s_featureName symb) ''Unknown'')) m)"

fun aggregate :: "FeatureMap \<Rightarrow> Symbol list \<Rightarrow> FeatureMap" where
  "aggregate m [] = m"
| "aggregate m (symb # symbols) = aggregate (aggregateSymbol m symb) symbols"

section \<open>Churn overlay and hotspot score\<close>

text \<open>
  The option \<^verbatim>\<open>--since\<close>: \<open>None\<close> when absent; the test \<^verbatim>\<open>if (since)\<close> also fails on
  the empty string.
\<close>

definition sinceGiven :: "string option \<Rightarrow> bool" where
  "sinceGiven since = (case since of None \<Rightarrow> False | Some d \<Rightarrow> d \<noteq> [])"

text \<open>\<^verbatim>\<open>report.commits || 0\<close>\<close>

definition orZero :: "nat option \<Rightarrow> nat" where
  "orZero v = (case v of None \<Rightarrow> 0 | Some n \<Rightarrow> n)"

text \<open>
  The body of the loop over the churn records; the first case is
  \<^verbatim>\<open>if (!report) continue\<close>.
\<close>

definition overlayFile :: "FeatureRule list \<Rightarrow> FeatureMap \<Rightarrow> FileChurn \<Rightarrow> FeatureMap" where
  "overlayFile features m file =
     (let i = cl_id (classifySymbol (c_path file) features) in
      case map_of m i of
        None \<Rightarrow> m
      | Some report \<Rightarrow>
          AList.update i
            (report\<lparr>r_commits := Some (orZero (r_commits report) + c_commits file),
                    r_churn := Some (orZero (r_churn report) + c_churn file),
                    r_topFiles := Some ((case r_topFiles report of None \<Rightarrow> [] | Some t \<Rightarrow> t)
                       @ [\<lparr>t_path = c_path file, t_commits = c_commits file, t_churn = c_churn file\<rparr>])\<rparr>)
            m)"

fun overlayChurn :: "FeatureRule list \<Rightarrow> FeatureMap \<Rightarrow> FileChurn list \<Rightarrow> FeatureMap" where
  "overlayChurn features m [] = m"
| "overlayChurn features m (file # files) = overlayChurn features (overlayFile features m file) files"

text \<open>
  The stable insertion sort by a comparator: an element goes before the first later element
  it does not compare greater than. For a comparator that is a consistent ordering of the
  elements, \<^verbatim>\<open>xs.sort(cmp)\<close> of ECMAScript is a stable sort and returns this list; the
  comparator \<^verbatim>\<open>(a, b) => b.churn - a.churn\<close> of the top files is one.
\<close>

fun insertBy :: "('a \<Rightarrow> 'a \<Rightarrow> int) \<Rightarrow> 'a \<Rightarrow> 'a list \<Rightarrow> 'a list" where
  "insertBy cmp x [] = [x]"
| "insertBy cmp x (y # ys) = (if cmp x y \<le> 0 then x # y # ys else y # insertBy cmp x ys)"

definition sortBy :: "('a \<Rightarrow> 'a \<Rightarrow> int) \<Rightarrow> 'a list \<Rightarrow> 'a list" where
  "sortBy cmp xs = foldr (insertBy cmp) xs []"

text \<open>
  The numbers of JavaScript are binary64 doubles, and every arithmetic operation and
  \<^verbatim>\<open>Math.sqrt\<close> return the double nearest to the exact result, a tie going to the double
  whose last bit is even. For a real \<open>x\<close> with \<open>2\<^sup>p \<le> |x| < 2\<^sup>p\<^sup>+\<^sup>1\<close> the doubles around \<open>x\<close>
  are the multiples of \<open>2\<^sup>p\<^sup>-\<^sup>5\<^sup>2\<close>, so \<open>toDouble x\<close> is the nearest such multiple. This is
  the rounding of the normal range of the format (magnitudes from \<open>2\<^sup>-\<^sup>1\<^sup>0\<^sup>2\<^sup>2\<close> to below
  \<open>2\<^sup>1\<^sup>0\<^sup>2\<^sup>4\<close>), which holds every number these computations meet. A count is read as
  the double of the same value, which is exact below \<open>2\<^sup>5\<^sup>3\<close>.
\<close>

definition roundHalfEven :: "real \<Rightarrow> int" where
  "roundHalfEven q =
     (let f = \<lfloor>q\<rfloor>; d = q - of_int f
      in if d < 1 / 2 then f else if 1 / 2 < d then f + 1 else if even f then f else f + 1)"

definition toDouble :: "real \<Rightarrow> real" where
  "toDouble x =
     (if x = 0 then 0
      else (let e = \<lfloor>log 2 \<bar>x\<bar>\<rfloor> - 52
            in sgn x * of_int (roundHalfEven (\<bar>x\<bar> / 2 powr of_int e)) * 2 powr of_int e))"

text \<open>\<^verbatim>\<open>Math.sqrt(x)\<close>: the double nearest to the square root.\<close>

definition Math_sqrt :: "real \<Rightarrow> real" where
  "Math_sqrt x = toDouble (sqrt x)"

text \<open>
  \<^verbatim>\<open>Math.round(x)\<close>: the integer nearest to the double \<open>x\<close>, a tie going upwards; the
  result is exact.
\<close>

definition Math_round :: "real \<Rightarrow> int" where
  "Math_round x = \<lfloor>x + 1 / 2\<rfloor>"

text \<open>\<^verbatim>\<open>Math.round(report.churn * Math.sqrt(report.commits))\<close>\<close>

definition hotspot :: "nat \<Rightarrow> nat \<Rightarrow> int" where
  "hotspot churn commits = Math_round (toDouble (real churn * Math_sqrt (real commits)))"

text \<open>
  The body of the loop over \<^verbatim>\<open>featureMap.values()\<close>. The test
  \<^verbatim>\<open>if (report.churn && report.commits)\<close> fails on \<^verbatim>\<open>undefined\<close> and on \<open>0\<close>.
\<close>

definition scoreReport :: "FeatureReport \<Rightarrow> FeatureReport" where
  "scoreReport report =
     (let scored =
        (case (r_churn report, r_commits report) of
           (Some churn, Some commits) \<Rightarrow>
             if churn \<noteq> 0 \<and> commits \<noteq> 0
             then report\<lparr>r_hotspotScore := Some (hotspot churn commits)\<rparr>
             else report
         | _ \<Rightarrow> report)
      in case r_topFiles scored of
           None \<Rightarrow> scored
         | Some t \<Rightarrow>
             scored\<lparr>r_topFiles :=
               Some (take 10 (sortBy (\<lambda>a b. int (t_churn b) - int (t_churn a)) t))\<rparr>)"

definition computeHotspots :: "FeatureMap \<Rightarrow> FeatureMap" where
  "computeHotspots m = map (\<lambda>(k, report). (k, scoreReport report)) m"

text \<open>
  Step 5 as a whole. The records \<open>churnData\<close> are what \<^verbatim>\<open>getGitChurn\<close> returns; they are
  read only when \<^verbatim>\<open>--since\<close> was given.
\<close>

definition churnStage ::
  "string option \<Rightarrow> FeatureRule list \<Rightarrow> FileChurn list \<Rightarrow> FeatureMap \<Rightarrow> FeatureMap" where
  "churnStage since features churnData m =
     (if sinceGiven since then computeHotspots (overlayChurn features m churnData) else m)"

section \<open>Ranking and coverage\<close>

text \<open>The comparator of the final sort.\<close>

definition rankCompare :: "string option \<Rightarrow> FeatureReport \<Rightarrow> FeatureReport \<Rightarrow> int" where
  "rankCompare since a b =
     (if sinceGiven since \<and> r_hotspotScore a \<noteq> None \<and> r_hotspotScore b \<noteq> None
      then the (r_hotspotScore b) - the (r_hotspotScore a)
      else int (r_total b) - int (r_total a))"

text \<open>\<^verbatim>\<open>f => f.total > 0 || (f.churn && f.churn > 0)\<close>\<close>

definition ranked :: "FeatureReport \<Rightarrow> bool" where
  "ranked f = (r_total f > 0 \<or> (case r_churn f of None \<Rightarrow> False | Some c \<Rightarrow> c \<noteq> 0 \<and> c > 0))"

text \<open>
  The comparator of the final sort need not be a consistent ordering when only some buckets
  have a score, and ECMAScript then leaves the order that \<^verbatim>\<open>sort\<close> returns to the
  implementation. So the sort of the engine is a parameter \<open>sortFn\<close> of the ranking. What
  ECMAScript requires of it is \<open>ecmaSort\<close>: the result is a rearrangement of the list, and
  for a comparator that is consistent on the elements (\<open>consistentComparator\<close>, the
  conditions of the standard) it is the result of the stable sort.
\<close>

definition consistentComparator :: "('a \<Rightarrow> 'a \<Rightarrow> int) \<Rightarrow> 'a set \<Rightarrow> bool" where
  "consistentComparator cmp S \<longleftrightarrow>
     (\<forall>a \<in> S. \<forall>b \<in> S. \<forall>c \<in> S.
        cmp a a = 0
        \<and> (cmp a b = 0 \<longrightarrow> cmp b a = 0)
        \<and> (cmp a b = 0 \<and> cmp b c = 0 \<longrightarrow> cmp a c = 0)
        \<and> (cmp a b < 0 \<and> cmp b c < 0 \<longrightarrow> cmp a c < 0)
        \<and> (cmp a b > 0 \<and> cmp b c > 0 \<longrightarrow> cmp a c > 0))"


definition rankFeatures ::
  "((FeatureReport \<Rightarrow> FeatureReport \<Rightarrow> int) \<Rightarrow> FeatureReport list \<Rightarrow> FeatureReport list)
     \<Rightarrow> string option \<Rightarrow> FeatureMap \<Rightarrow> FeatureReport list" where
  "rankFeatures sortFn since m = sortFn (rankCompare since) (filter ranked (map snd m))"

text \<open>
  The numbers of the coverage computation. A division of JavaScript never throws:
  \<open>0 / 0\<close> is \<^verbatim>\<open>NaN\<close>, a positive number over \<open>0\<close> is \<^verbatim>\<open>Infinity\<close>, and both propagate
  through the arithmetic that follows. A finite result is the double nearest to the exact
  one.
\<close>

datatype jsnum = NaN | PosInf | NegInf | Fin real

definition js_div :: "nat \<Rightarrow> nat \<Rightarrow> jsnum" where
  "js_div a b =
     (if b = 0 then (if a = 0 then NaN else PosInf) else Fin (toDouble (real a / real b)))"

definition js_one_minus :: "jsnum \<Rightarrow> jsnum" where
  "js_one_minus x =
     (case x of NaN \<Rightarrow> NaN | PosInf \<Rightarrow> NegInf | NegInf \<Rightarrow> PosInf | Fin r \<Rightarrow> Fin (toDouble (1 - r)))"

definition js_times_100 :: "jsnum \<Rightarrow> jsnum" where
  "js_times_100 x = (case x of Fin r \<Rightarrow> Fin (toDouble (r * 100)) | other \<Rightarrow> other)"

definition digitChar :: "nat \<Rightarrow> char" where
  "digitChar d = ''0123456789'' ! d"

fun showNat :: "nat \<Rightarrow> string" where
  "showNat n = (if n < 10 then [digitChar n] else showNat (n div 10) @ [digitChar (n mod 10)])"

text \<open>
  \<^verbatim>\<open>x.toFixed(1)\<close>, for the magnitudes below \<open>10\<^sup>2\<^sup>1\<close> that a percentage of symbol
  counts has: the sign, then the multiple of a tenth nearest to the exact value of the
  double, a tie going to the larger one.
\<close>

definition toFixed1 :: "jsnum \<Rightarrow> string" where
  "toFixed1 x =
     (case x of
        NaN \<Rightarrow> ''NaN''
      | PosInf \<Rightarrow> ''Infinity''
      | NegInf \<Rightarrow> ''-Infinity''
      | Fin r \<Rightarrow>
          (let n = nat \<lfloor>\<bar>r\<bar> * 10 + 1 / 2\<rfloor>
           in (if r < 0 then ''-'' else []) @ showNat (n div 10) @ ''.'' @ showNat (n mod 10)))"

text \<open>\<^verbatim>\<open>featureMap.get('uncategorized')?.total || 0\<close>\<close>

definition uncatCount :: "FeatureMap \<Rightarrow> nat" where
  "uncatCount m = (case map_of m ''uncategorized'' of None \<Rightarrow> 0 | Some report \<Rightarrow> r_total report)"

text \<open>\<^verbatim>\<open>((1 - uncatCount / totalSymbols) * 100).toFixed(1)\<close>\<close>

definition coveragePct :: "nat \<Rightarrow> nat \<Rightarrow> string" where
  "coveragePct uncat totalSymbols = toFixed1 (js_times_100 (js_one_minus (js_div uncat totalSymbols)))"

section \<open>The run as a whole\<close>

text \<open>
  What \<^verbatim>\<open>main\<close> computes and hands to the JSON writer and the text report (fields
  prefixed \<open>o_\<close>), from the raw entries, the configured rules, the option \<^verbatim>\<open>--since\<close> and
  the churn records, with the sort of the engine.
\<close>

record Census =
  o_symbols :: "Symbol list"
  o_featureMap :: FeatureMap
  o_features :: "FeatureReport list"
  o_totalSymbols :: nat
  o_totalFunctions :: nat
  o_totalMethods :: nat
  o_totalClasses :: nat
  o_coverageRate :: string

definition census ::
  "((FeatureReport \<Rightarrow> FeatureReport \<Rightarrow> int) \<Rightarrow> FeatureReport list \<Rightarrow> FeatureReport list)
     \<Rightarrow> (string \<Rightarrow> string) \<Rightarrow> (string \<Rightarrow> string option) \<Rightarrow> CtagsEntry list
     \<Rightarrow> FeatureRule list \<Rightarrow> string option \<Rightarrow> FileChurn list \<Rightarrow> Census" where
  "census sortFn relative readFile rawEntries features since churnData =
     (let symbols = classifyAll features (filterSymbols relative readFile rawEntries);
          featureMap = churnStage since features churnData (aggregate (seedFeatureMap features) symbols);
          sorted = rankFeatures sortFn since featureMap;
          totalSymbols = length symbols
      in \<lparr>o_symbols = symbols, o_featureMap = featureMap, o_features = sorted,
          o_totalSymbols = totalSymbols,
          o_totalFunctions = length (filter (\<lambda>s. s_kind s = Function) symbols),
          o_totalMethods = length (filter (\<lambda>s. s_kind s = Method) symbols),
          o_totalClasses = length (filter (\<lambda>s. s_kind s = Class) symbols),
          o_coverageRate = coveragePct (uncatCount featureMap) totalSymbols @ ''%''\<rparr>)"

section \<open>Example inputs\<close>

text \<open>Two overlapping rules, and a configuration whose last rule has an empty path substring.\<close>

definition exampleRules :: "FeatureRule list" where
  "exampleRules =
     [\<lparr>f_id = ''api'', f_name = ''Api'', f_category = ''Backend'', f_paths = [''/api/'']\<rparr>,
      \<lparr>f_id = ''src'', f_name = ''Source'', f_category = ''General'', f_paths = [''/lib/'', ''/src/'']\<rparr>]"

definition catchAllRules :: "FeatureRule list" where
  "catchAllRules =
     [\<lparr>f_id = ''api'', f_name = ''Api'', f_category = ''Backend'', f_paths = [''/api/'']\<rparr>,
      \<lparr>f_id = ''rest'', f_name = ''Everything else'', f_category = ''General'', f_paths = ['''']\<rparr>]"

text \<open>Four symbols as the normaliser leaves them, before classification.\<close>

definition exampleSymbol :: "string \<Rightarrow> SymbolKind \<Rightarrow> string \<Rightarrow> Symbol" where
  "exampleSymbol n k f =
     \<lparr>s_name = n, s_kind = k, s_file = f, s_line = 1, s_scope = None, s_signature = None,
      s_feature = [], s_featureName = []\<rparr>"

definition exampleSymbols :: "Symbol list" where
  "exampleSymbols =
     [exampleSymbol ''listUsers'' Function ''src/api/users.ts'',
      exampleSymbol ''Store'' Class ''lib/store.ts'',
      exampleSymbol ''save'' Method ''lib/store.ts'',
      exampleSymbol ''run'' Function ''scripts/run.ts'']"

text \<open>Churn records of four files, and the option \<^verbatim>\<open>--since\<close> that goes with them.\<close>

definition exampleChurn :: "FileChurn list" where
  "exampleChurn =
     [\<lparr>c_path = ''src/api/users.ts'', c_commits = 3, c_additions = 50, c_deletions = 30, c_churn = 80\<rparr>,
      \<lparr>c_path = ''README.md'', c_commits = 1, c_additions = 50, c_deletions = 0, c_churn = 50\<rparr>,
      \<lparr>c_path = ''src/api/routes.ts'', c_commits = 1, c_additions = 20, c_deletions = 0, c_churn = 20\<rparr>,
      \<lparr>c_path = ''lib/empty.ts'', c_commits = 2, c_additions = 0, c_deletions = 0, c_churn = 0\<rparr>]"

definition exampleSince :: "string option" where
  "exampleSince = Some ''2024-01-01''"



text \<open>One churn record of many changed lines in many commits.\<close>

definition heavyChurn :: "FileChurn list" where
  "heavyChurn =
     [\<lparr>c_path = ''src/api/users.ts'', c_commits = 1624, c_additions = 400000,
       c_deletions = 337838, c_churn = 737838\<rparr>]"





text \<open>A raw entry with a name, a kind, a path and a line.\<close>

definition exampleEntry :: "string \<Rightarrow> string \<Rightarrow> string \<Rightarrow> nat \<Rightarrow> CtagsEntry" where
  "exampleEntry n k p l =
     \<lparr>e_name = n, e_path = p, e_line = l, e_kind = k, e_scope = None, e_scopeKind = None,
      e_pattern = None\<rparr>"

section \<open>The orphan scanner in the words of its description\<close>







section \<open>The ranking in the words of its description\<close>



section \<open>Properties of the classifier\<close>

lemma includes_sublist: "str_includes s p \<longleftrightarrow> sublist p s"
  by (induction s) (auto simp: sublist_Cons_right)

lemma matchPaths_iff: "matchPaths n ps \<longleftrightarrow> (\<exists>p \<in> set ps. sublist p n)"
  by (induction ps) (auto simp: includes_sublist)

lemma classifyNormalized_find:
  "classifyNormalized n feats =
     (case find (\<lambda>feat. matchPaths n (f_paths feat)) feats of
        None \<Rightarrow> uncategorized | Some feat \<Rightarrow> ruleResult feat)"
  by (induction feats) (auto simp: ruleResult_def)

lemma classifySymbol_find:
  "classifySymbol relPath features =
     (case find (ruleMatches relPath) features of
        None \<Rightarrow> uncategorized | Some feat \<Rightarrow> ruleResult feat)"
proof -
  have "(\<lambda>feat. matchPaths (normalizePath relPath) (f_paths feat)) = ruleMatches relPath"
    by (rule ext) (simp add: ruleMatches_def matchPaths_iff)
  then show ?thesis
    by (simp add: classifySymbol_def classifyNormalized_find)
qed

lemma classifySymbol_first:
  assumes "i < length features" "ruleMatches relPath (features ! i)"
    and "\<forall>j < i. \<not> ruleMatches relPath (features ! j)"
  shows "classifySymbol relPath features = ruleResult (features ! i)"
proof -
  have "find (ruleMatches relPath) features = Some (features ! i)"
    using assms by (auto simp: find_Some_iff)
  then show ?thesis by (simp add: classifySymbol_find)
qed

lemma classifySymbol_none:
  assumes "\<forall>feat \<in> set features. \<not> ruleMatches relPath feat"
  shows "classifySymbol relPath features = uncategorized"
proof -
  have "find (ruleMatches relPath) features = None"
    using assms by (simp add: find_None_iff)
  then show ?thesis by (simp add: classifySymbol_find)
qed

lemma classifySymbol_first_upto:
  assumes "i < length features" "ruleMatches relPath (features ! i)"
  shows "\<exists>k \<le> i. ruleMatches relPath (features ! k)
           \<and> (\<forall>h < k. \<not> ruleMatches relPath (features ! h))
           \<and> classifySymbol relPath features = ruleResult (features ! k)"
proof -
  define k where "k = (LEAST n. ruleMatches relPath (features ! n))"
  have km: "ruleMatches relPath (features ! k)"
    unfolding k_def using assms(2) by (rule LeastI)
  have kle: "k \<le> i"
    unfolding k_def using assms(2) by (rule Least_le)
  have kmin: "\<forall>h < k. \<not> ruleMatches relPath (features ! h)"
    unfolding k_def using not_less_Least by blast
  from kle assms(1) have "k < length features" by simp
  from classifySymbol_first [OF this km kmin] km kle kmin show ?thesis by blast
qed

lemma exampleRules_match:
  "ruleMatches ''src/api/users.ts'' (exampleRules ! 0)"
  "ruleMatches ''src/api/users.ts'' (exampleRules ! 1)"
  by (simp_all add: exampleRules_def ruleMatches_def normalizePath_def
      includes_sublist [symmetric] backslash_def)

text \<open>
  Claim C2. The classifier is a function of the path and the rule list alone. On the
  normalised path (a leading \<open>/\<close>, every backslash replaced by \<open>/\<close>) it returns the first
  rule, in declared order, one of whose path substrings occurs in the path, and the
  sentinel \<open>uncategorized\<close> of category \<open>Unknown\<close> when there is none. Where two rules
  match a path, the result never comes from a rule declared after the earlier one, and it is
  the earlier one's when no rule before it matches.
\<close>

theorem C2_classifySymbol_first_match:
  "classifySymbol relPath features =
     (case find (\<lambda>feat. \<exists>p \<in> set (f_paths feat).
                   sublist p (CHR ''/'' # map (\<lambda>c. if c = CHR 0x5C then CHR ''/'' else c) relPath))
             features of
        None \<Rightarrow> \<lparr>cl_id = ''uncategorized'', cl_name = ''Uncategorized'', cl_category = ''Unknown''\<rparr>
      | Some feat \<Rightarrow> \<lparr>cl_id = f_id feat, cl_name = f_name feat, cl_category = f_category feat\<rparr>)
   \<and> (\<forall>i j. i < j \<and> j < length features
          \<and> ruleMatches relPath (features ! i) \<and> ruleMatches relPath (features ! j)
        \<longrightarrow> (\<exists>k \<le> i. ruleMatches relPath (features ! k)
               \<and> cl_id (classifySymbol relPath features) = f_id (features ! k))
           \<and> ((\<forall>h < i. \<not> ruleMatches relPath (features ! h))
               \<longrightarrow> cl_id (classifySymbol relPath features) = f_id (features ! i)))"
proof -
  let ?n = "CHR ''/'' # map (\<lambda>c. if c = CHR 0x5C then CHR ''/'' else c) relPath"
  have eq: "(\<lambda>feat. \<exists>p \<in> set (f_paths feat). sublist p ?n) = ruleMatches relPath"
    by (rule ext) (simp add: ruleMatches_def normalizePath_def backslash_def)
  have first: "classifySymbol relPath features =
     (case find (\<lambda>feat. \<exists>p \<in> set (f_paths feat). sublist p ?n) features of
        None \<Rightarrow> \<lparr>cl_id = ''uncategorized'', cl_name = ''Uncategorized'', cl_category = ''Unknown''\<rparr>
      | Some feat \<Rightarrow> \<lparr>cl_id = f_id feat, cl_name = f_name feat, cl_category = f_category feat\<rparr>)"
    unfolding eq
    by (simp add: classifySymbol_find uncategorized_def ruleResult_def split: option.splits)
  have upto: "\<exists>k \<le> i. ruleMatches relPath (features ! k)
               \<and> cl_id (classifySymbol relPath features) = f_id (features ! k)"
    if "i < j" "j < length features" "ruleMatches relPath (features ! i)" for i j
  proof -
    from that have "i < length features" by simp
    from classifySymbol_first_upto [OF this that(3)] show ?thesis
      by (auto simp: ruleResult_def)
  qed
  have exact: "cl_id (classifySymbol relPath features) = f_id (features ! i)"
    if "i < j" "j < length features" "ruleMatches relPath (features ! i)"
      "\<forall>h < i. \<not> ruleMatches relPath (features ! h)" for i j
  proof -
    from that have "i < length features" by simp
    from classifySymbol_first [OF this that(3) that(4)] show ?thesis
      by (simp add: ruleResult_def)
  qed
  from first upto exact show ?thesis by blast
qed

theorem C2_classifySymbol_first_match_witness:
  "(0::nat) < 1 \<and> 1 < length exampleRules
     \<and> ruleMatches ''src/api/users.ts'' (exampleRules ! 0)
     \<and> ruleMatches ''src/api/users.ts'' (exampleRules ! 1)
     \<and> cl_id (classifySymbol ''src/api/users.ts'' exampleRules) = ''api''"
proof -
  note m = exampleRules_match
  have len: "1 < length exampleRules" by (simp add: exampleRules_def)
  have "cl_id (classifySymbol ''src/api/users.ts'' exampleRules) = f_id (exampleRules ! 0)"
    using C2_classifySymbol_first_match [of "''src/api/users.ts''" exampleRules] m len by blast
  then show ?thesis using m len by (simp add: exampleRules_def)
qed

lemma empty_path_matches: "[] \<in> set (f_paths feat) \<Longrightarrow> ruleMatches relPath feat"
  by (auto simp: ruleMatches_def)

text \<open>
  Claim C10, as the code has it. A rule whose path list contains the empty string matches
  every path, so under a configuration with such a rule the loop always returns from a rule
  and the default \<open>uncategorized\<close> branch is never reached. The rule returned is the first
  rule that matches the path: the first rule with an empty substring when no rule declared
  before it matches, and otherwise the earliest rule declared before it that matches.
\<close>

theorem C10_empty_substring_rule:
  assumes "i < length features" and "[] \<in> set (f_paths (features ! i))"
  shows "ruleMatches relPath (features ! i)
    \<and> (\<exists>k \<le> i. ruleMatches relPath (features ! k)
          \<and> (\<forall>h < k. \<not> ruleMatches relPath (features ! h))
          \<and> classifySymbol relPath features =
              \<lparr>cl_id = f_id (features ! k), cl_name = f_name (features ! k),
               cl_category = f_category (features ! k)\<rparr>)
    \<and> ((\<forall>h < i. \<not> ruleMatches relPath (features ! h))
          \<longrightarrow> cl_id (classifySymbol relPath features) = f_id (features ! i))
    \<and> find (\<lambda>feat. matchPaths (normalizePath relPath) (f_paths feat)) features \<noteq> None"
proof -
  have m: "ruleMatches relPath (features ! i)"
    using assms(2) by (rule empty_path_matches)
  have a: "\<exists>k \<le> i. ruleMatches relPath (features ! k)
          \<and> (\<forall>h < k. \<not> ruleMatches relPath (features ! h))
          \<and> classifySymbol relPath features =
              \<lparr>cl_id = f_id (features ! k), cl_name = f_name (features ! k),
               cl_category = f_category (features ! k)\<rparr>"
    using classifySymbol_first_upto [OF assms(1) m] by (simp add: ruleResult_def)
  have b: "cl_id (classifySymbol relPath features) = f_id (features ! i)"
    if "\<forall>h < i. \<not> ruleMatches relPath (features ! h)"
    using classifySymbol_first [OF assms(1) m that] by (simp add: ruleResult_def)
  have "features ! i \<in> set features" using assms(1) by simp
  with m have c: "find (\<lambda>feat. matchPaths (normalizePath relPath) (f_paths feat)) features \<noteq> None"
    by (auto simp: find_None_iff matchPaths_iff ruleMatches_def)
  from m a b c show ?thesis by blast
qed

theorem C10_empty_substring_rule_witness:
  "(1::nat) < length catchAllRules \<and> [] \<in> set (f_paths (catchAllRules ! 1))
     \<and> \<not> ruleMatches ''README.md'' (catchAllRules ! 0)
     \<and> cl_id (classifySymbol ''README.md'' catchAllRules) = ''rest''"
proof -
  have len: "(1::nat) < length catchAllRules" by (simp add: catchAllRules_def)
  have emp: "[] \<in> set (f_paths (catchAllRules ! 1))" by (simp add: catchAllRules_def)
  have no: "\<forall>h < (1::nat). \<not> ruleMatches ''README.md'' (catchAllRules ! h)"
    by (simp add: catchAllRules_def ruleMatches_def normalizePath_def
        includes_sublist [symmetric] backslash_def)
  have "cl_id (classifySymbol ''README.md'' catchAllRules) = f_id (catchAllRules ! 1)"
    using C10_empty_substring_rule [OF len emp, of "''README.md''"] no by blast
  then show ?thesis using len emp no by (simp add: catchAllRules_def)
qed

text \<open>
  The claim as first stated, that the first rule with an empty substring is returned for
  every path, fails where an earlier rule matches: here the rule \<open>rest\<close> is the only one
  with an empty substring, and the path is classified as \<open>api\<close>.
\<close>

theorem C10_first_such_rule_counterexample:
  "[] \<in> set (f_paths (catchAllRules ! 1)) \<and> [] \<notin> set (f_paths (catchAllRules ! 0))
     \<and> length catchAllRules = 2
     \<and> f_id (catchAllRules ! 1) = ''rest''
     \<and> cl_id (classifySymbol ''src/api/users.ts'' catchAllRules) = ''api''
     \<and> cl_id (classifySymbol ''src/api/users.ts'' catchAllRules) \<noteq> f_id (catchAllRules ! 1)"
  by (simp add: catchAllRules_def classifySymbol_def normalizePath_def backslash_def)

section \<open>Properties of the double arithmetic\<close>

text \<open>
  Rounding to the nearest integer, and to the nearest double of a number whose binade is
  known: the number is scaled into the range from \<open>2\<^sup>5\<^sup>2\<close> to \<open>2\<^sup>5\<^sup>3\<close>, where the doubles are
  the integers.
\<close>

lemma roundHalfEven_near:
  assumes "\<bar>q - of_int m\<bar> < 1 / 2"
  shows "roundHalfEven q = m"
proof -
  from assms have a: "of_int m - 1 / 2 < q" and b: "q < of_int m + 1 / 2" by linarith+
  have "\<lfloor>q\<rfloor> = m \<or> \<lfloor>q\<rfloor> = m - 1"
  proof -
    from a have "of_int (m - 1) \<le> q" by simp
    then have "m - 1 \<le> \<lfloor>q\<rfloor>" by (simp only: le_floor_iff)
    moreover from b have "q < of_int (m + 1)" by simp
    then have "\<lfloor>q\<rfloor> < m + 1" by (simp only: floor_less_iff)
    ultimately show ?thesis by linarith
  qed
  then show ?thesis
  proof
    assume f: "\<lfloor>q\<rfloor> = m"
    with b have "q - of_int \<lfloor>q\<rfloor> < 1 / 2" by simp
    with f show ?thesis by (simp add: roundHalfEven_def Let_def)
  next
    assume f: "\<lfloor>q\<rfloor> = m - 1"
    with a have "1 / 2 < q - of_int \<lfloor>q\<rfloor>" by simp
    with f show ?thesis by (simp add: roundHalfEven_def Let_def)
  qed
qed

lemma roundHalfEven_int [simp]: "roundHalfEven (of_int m) = m"
  by (rule roundHalfEven_near) simp

lemma roundHalfEven_tie:
  assumes "q = of_int m + 1 / 2"
  shows "roundHalfEven q = (if even m then m else m + 1)"
proof -
  have "\<lfloor>q\<rfloor> = m" unfolding assms by (rule floor_unique) simp_all
  then show ?thesis by (simp add: roundHalfEven_def Let_def assms)
qed

lemma floor_log2_eq:
  assumes "0 < x" "2 powr of_int p \<le> x" "x < 2 powr of_int (p + 1)"
  shows "\<lfloor>log 2 x\<rfloor> = p"
proof (rule floor_unique)
  show "of_int p \<le> log 2 x" using assms(1,2) by (simp add: le_log_iff)
  from assms(1,3) have "log 2 x < of_int (p + 1)" by (simp only: log_less_iff) 
  then show "log 2 x < of_int p + 1" by simp
qed

lemma toDouble_down:
  assumes "2 ^ 52 \<le> x * 2 ^ k" "x * 2 ^ k < 2 ^ 53"
  shows "toDouble x = of_int (roundHalfEven (x * 2 ^ k)) / 2 ^ k"
proof -
  have pos: "0 < x"
  proof (rule ccontr)
    assume "\<not> 0 < x"
    then have "x * 2 ^ k \<le> 0" by (simp add: mult_le_0_iff)
    with assms(1) show False by (smt (verit) zero_less_power)
  qed
  let ?p = "52 - int k"
  have "(2::real) powr of_int ?p = 2 powr (52 - real k)" by simp
  also have "\<dots> = 2 powr 52 / 2 powr real k" by (rule powr_diff)
  finally have p1: "(2::real) powr of_int ?p = 2 ^ 52 / 2 ^ k" by (simp add: powr_realpow)
  have "(2::real) powr of_int (?p + 1) = 2 powr (53 - real k)" by simp
  also have "\<dots> = 2 powr 53 / 2 powr real k" by (rule powr_diff)
  finally have p2: "(2::real) powr of_int (?p + 1) = 2 ^ 53 / 2 ^ k" by (simp add: powr_realpow)
  have "\<lfloor>log 2 x\<rfloor> = ?p"
  proof (rule floor_log2_eq [OF pos])
    from assms(1) show "2 powr of_int ?p \<le> x" unfolding p1 by (simp add: field_simps)
    from assms(2) show "x < 2 powr of_int (?p + 1)" unfolding p2 by (simp add: field_simps)
  qed
  then have e: "\<lfloor>log 2 \<bar>x\<bar>\<rfloor> - 52 = - int k" using pos by simp
  have pw: "(2::real) powr of_int (- int k) = 1 / 2 ^ k"
    by (simp add: powr_minus powr_realpow inverse_eq_divide)
  show ?thesis
    using pos unfolding toDouble_def Let_def e pw by simp
qed

lemma toDouble_up:
  assumes "2 ^ 52 \<le> x / 2 ^ k" "x / 2 ^ k < 2 ^ 53"
  shows "toDouble x = of_int (roundHalfEven (x / 2 ^ k)) * 2 ^ k"
proof -
  have pos: "0 < x"
  proof (rule ccontr)
    assume "\<not> 0 < x"
    then have "x / 2 ^ k \<le> 0" by (simp add: divide_le_0_iff)
    with assms(1) show False by (smt (verit) zero_less_power)
  qed
  let ?p = "52 + int k"
  have "(2::real) powr of_int ?p = 2 powr (52 + real k)" by simp
  also have "\<dots> = 2 powr 52 * 2 powr real k" by (rule powr_add)
  finally have p1: "(2::real) powr of_int ?p = 2 ^ 52 * 2 ^ k" by (simp add: powr_realpow)
  have "(2::real) powr of_int (?p + 1) = 2 powr (53 + real k)" by simp
  also have "\<dots> = 2 powr 53 * 2 powr real k" by (rule powr_add)
  finally have p2: "(2::real) powr of_int (?p + 1) = 2 ^ 53 * 2 ^ k" by (simp add: powr_realpow)
  have "\<lfloor>log 2 x\<rfloor> = ?p"
  proof (rule floor_log2_eq [OF pos])
    from assms(1) show "2 powr of_int ?p \<le> x" unfolding p1 by (simp add: field_simps)
    from assms(2) show "x < 2 powr of_int (?p + 1)" unfolding p2 by (simp add: field_simps)
  qed
  then have e: "\<lfloor>log 2 \<bar>x\<bar>\<rfloor> - 52 = int k" using pos by simp
  have pw: "(2::real) powr of_int (int k) = 2 ^ k"
    by (simp add: powr_realpow)
  show ?thesis
    using pos unfolding toDouble_def Let_def e pw by simp
qed

text \<open>A natural number below \<open>2\<^sup>5\<^sup>3\<close> is a double.\<close>

lemma toDouble_nat:
  assumes "n < 2 ^ 53"
  shows "toDouble (real n) = real n"
proof (cases "n = 0")
  case True
  then show ?thesis by (simp add: toDouble_def)
next
  case False
  then have pos: "0 < int n" by simp
  define b where "b = nat (bitlen (int n))"
  from bitlen_bounds [OF pos] have lo0: "2 ^ nat (bitlen (int n) - 1) \<le> int n"
    and hi: "int n < 2 ^ b"
    by (simp_all add: b_def)
  have b1: "1 \<le> b"
  proof (rule ccontr)
    assume "\<not> 1 \<le> b"
    then have "b = 0" by simp
    with hi pos show False by simp
  qed
  then have "nat (bitlen (int n) - 1) = b - 1" by (simp add: b_def)
  with lo0 have lo: "2 ^ (b - 1) \<le> int n" by simp
  have b53: "b \<le> 53"
  proof (rule ccontr)
    assume "\<not> b \<le> 53"
    then have "53 \<le> b - 1" by simp
    then have "(2::int) ^ 53 \<le> 2 ^ (b - 1)" by (rule power_increasing) simp
    from this lo have "(2::int) ^ 53 \<le> int n" by (rule order_trans)
    moreover from assms have "int n < int (2 ^ 53)" by (simp only: of_nat_less_iff)
    then have "int n < 2 ^ 53" by simp
    ultimately show False by linarith
  qed
  define k where "k = 53 - b"
  have kb: "b - 1 + k = 52" "b + k = 53" using b1 b53 by (simp_all add: k_def)
  from lo have "2 ^ (b - 1) * 2 ^ k \<le> int n * 2 ^ k" by (rule mult_right_mono) simp
  then have l: "2 ^ 52 \<le> int n * 2 ^ k" unfolding power_add [symmetric] kb .
  from hi have "int n * 2 ^ k < 2 ^ b * 2 ^ k" by (rule mult_strict_right_mono) simp
  then have h: "int n * 2 ^ k < 2 ^ 53" unfolding power_add [symmetric] kb .
  have eq: "real n * 2 ^ k = of_int (int n * 2 ^ k)" by simp
  have "toDouble (real n) = of_int (roundHalfEven (real n * 2 ^ k)) / 2 ^ k"
  proof (rule toDouble_down)
    from l have "real_of_int (2 ^ 52) \<le> real_of_int (int n * 2 ^ k)" by (simp only: of_int_le_iff)
    then show "2 ^ 52 \<le> real n * 2 ^ k" by simp
    from h have "real_of_int (int n * 2 ^ k) < real_of_int (2 ^ 53)" by (simp only: of_int_less_iff)
    then show "real n * 2 ^ k < 2 ^ 53" by simp
  qed
  also have "\<dots> = real n" unfolding eq roundHalfEven_int by simp
  finally show ?thesis .
qed

lemma Math_round_int [simp]: "Math_round (of_int m) = m"
  unfolding Math_round_def by (rule floor_unique) simp_all

text \<open>
  The score of a square number of commits is exact, and the score of 737838 changed lines
  in 1624 commits is not: the double product is \<open>29734047.5\<close>, the exact one is below it.
\<close>

lemma hotspot_square:
  assumes "k < 2 ^ 53" "c * k < 2 ^ 53"
  shows "hotspot c (k * k) = int (c * k)"
proof -
  have "sqrt (real (k * k)) = real k" by simp
  then have "Math_sqrt (real (k * k)) = real k"
    by (simp only: Math_sqrt_def toDouble_nat [OF assms(1)])
  then have "toDouble (real c * Math_sqrt (real (k * k))) = toDouble (real (c * k))"
    by simp
  also have "\<dots> = real (c * k)" by (rule toDouble_nat [OF assms(2)])
  finally have "hotspot c (k * k) = Math_round (real (c * k))"
    by (simp only: hotspot_def)
  also have "\<dots> = Math_round (of_int (int (c * k)))" by simp
  also have "\<dots> = int (c * k)" by (rule Math_round_int)
  finally show ?thesis .
qed

lemma hotspot_examples: "hotspot 100 4 = 200" "hotspot 50 1 = 50"
  using hotspot_square [of 2 100] hotspot_square [of 1 50] by simp_all

text \<open>The double nearest to the square root of a natural number, from integer bounds.\<close>

lemma toDouble_sqrt:
  fixes M :: int
  assumes range: "2 ^ 104 \<le> int n * 4 ^ k" "int n * 4 ^ k < 2 ^ 106"
    and near: "(2 * M - 1)\<^sup>2 < 4 * (int n * 4 ^ k)" "4 * (int n * 4 ^ k) < (2 * M + 1)\<^sup>2"
    and M: "0 < M"
  shows "toDouble (sqrt (real n)) = of_int M / 2 ^ k"
proof -
  define N :: real where "N = real n * 4 ^ k"
  have N: "N = of_int (int n * 4 ^ k)" by (simp add: N_def)
  have sq: "sqrt (real n) * 2 ^ k = sqrt N"
  proof -
    have "sqrt N = sqrt (real n) * sqrt (4 ^ k)" unfolding N_def by (rule real_sqrt_mult)
    also have "sqrt ((4::real) ^ k) = 2 ^ k"
    proof -
      have "(4::real) ^ k = (2 ^ k)\<^sup>2" by (simp add: power_mult_distrib [symmetric] power2_eq_square)
      then show ?thesis by simp
    qed
    finally show ?thesis by simp
  qed
  have lo: "2 ^ 52 \<le> sqrt N"
  proof (rule real_le_rsqrt)
    from range(1) have "real_of_int (2 ^ 104) \<le> N" unfolding N by (simp only: of_int_le_iff)
    then show "(2 ^ 52)\<^sup>2 \<le> N" by simp
  qed
  have hi: "sqrt N < 2 ^ 53"
  proof (rule real_less_lsqrt)
    from range(2) have "N < real_of_int (2 ^ 106)" unfolding N by (simp only: of_int_less_iff)
    then show "N < (2 ^ 53)\<^sup>2" by simp
  qed simp
  have a: "of_int M - 1 / 2 < sqrt N"
  proof -
    from near(1) have "real_of_int ((2 * M - 1)\<^sup>2) < real_of_int (4 * (int n * 4 ^ k))"
      by (simp only: of_int_less_iff)
    then have "(2 * of_int M - 1)\<^sup>2 < 4 * N" unfolding N by simp
    then have "((2 * of_int M - 1) / 2)\<^sup>2 < N" by (simp add: power2_eq_square field_simps)
    then have "(2 * of_int M - 1) / 2 < sqrt N" by (rule real_less_rsqrt)
    then show ?thesis by (simp add: field_simps)
  qed
  have b: "sqrt N < of_int M + 1 / 2"
  proof -
    from near(2) have "real_of_int (4 * (int n * 4 ^ k)) < real_of_int ((2 * M + 1)\<^sup>2)"
      by (simp only: of_int_less_iff)
    then have "4 * N < (2 * of_int M + 1)\<^sup>2" unfolding N by simp
    then have "N < ((2 * of_int M + 1) / 2)\<^sup>2" by (simp add: power2_eq_square field_simps)
    moreover from M have "0 \<le> (2 * real_of_int M + 1) / 2" by simp
    ultimately have "sqrt N < (2 * of_int M + 1) / 2" by (intro real_less_lsqrt)
    then show ?thesis by (simp add: field_simps)
  qed
  from a b have "\<bar>sqrt N - of_int M\<bar> < 1 / 2" by linarith
  then have r: "roundHalfEven (sqrt (real n) * 2 ^ k) = M"
    unfolding sq by (rule roundHalfEven_near)
  have "toDouble (sqrt (real n)) = of_int (roundHalfEven (sqrt (real n) * 2 ^ k)) / 2 ^ k"
    by (rule toDouble_down) (simp_all only: sq lo hi)
  then show ?thesis by (simp only: r)
qed

lemma sqrt_1624: "Math_sqrt 1624 = 5671563627500914 / 2 ^ 47"
proof -
  have "toDouble (sqrt (real 1624)) = of_int 5671563627500914 / 2 ^ 47"
    by (rule toDouble_sqrt) simp_all
  then show ?thesis by (simp add: Math_sqrt_def)
qed

lemma hotspot_737838_1624: "hotspot 737838 1624 = 29734048"
proof -
  define x :: real where "x = 737838 * (5671563627500914 / 2 ^ 47)"
  have "toDouble x = of_int (roundHalfEven (x * 2 ^ 28)) / 2 ^ 28"
    by (rule toDouble_down) (simp_all add: x_def)
  moreover have "roundHalfEven (x * 2 ^ 28) = 7981672599388160"
    by (rule roundHalfEven_near) (simp add: x_def)
  ultimately have td: "toDouble x = 59468095 / 2" by simp
  have "hotspot 737838 1624 = Math_round (toDouble x)"
    unfolding x_def by (simp add: hotspot_def sqrt_1624)
  also have "\<dots> = 29734048"
    unfolding td Math_round_def by (rule floor_unique) simp_all
  finally show ?thesis .
qed

lemma exact_737838_1624: "round (737838 * sqrt 1624 :: real) = 29734047"
proof -
  have lo: "59468093 / (2 * 737838) \<le> sqrt (1624::real)"
    by (rule real_le_rsqrt) (simp add: power2_eq_square)
  have hi: "sqrt (1624::real) < 59468095 / (2 * 737838)"
    by (rule real_less_lsqrt) (simp_all add: power2_eq_square)
  show ?thesis
    unfolding round_def
  proof (rule floor_unique)
    from lo show "of_int 29734047 \<le> 737838 * sqrt 1624 + 1 / (2::real)" by (simp add: field_simps)
    from hi show "737838 * sqrt 1624 + 1 / (2::real) < of_int 29734047 + 1" by (simp add: field_simps)
  qed
qed

section \<open>Properties of the feature map\<close>

lemma sum_values_update:
  fixes g :: "'v \<Rightarrow> nat"
  shows "(\<Sum>r\<leftarrow>map snd (AList.update k v m). g r) + (case map_of m k of None \<Rightarrow> 0 | Some r \<Rightarrow> g r)
     = (\<Sum>r\<leftarrow>map snd m. g r) + g v"
  by (induct m) auto

lemma values_update: "snd ` set (AList.update k v m) \<subseteq> insert v (snd ` set m)"
  by (induct m) auto

lemma values_update_pres:
  assumes "\<forall>r \<in> snd ` set m. P r" and "P v"
  shows "\<forall>r \<in> snd ` set (AList.update k v m). P r"
  using assms values_update [of k v m] by blast

lemma map_of_value: "map_of m k = Some r \<Longrightarrow> r \<in> snd ` set m"
  by (force dest: map_of_SomeD)

lemma keys_update: "fst ` set (AList.update k v m) = insert k (fst ` set m)"
  by (simp add: dom_update)

lemma map_of_keys: "map_of m k \<noteq> None \<longleftrightarrow> k \<in> fst ` set m"
  by (simp add: map_of_eq_None_iff)

subsection \<open>Seeding\<close>

lemma seedFeatures_values:
  assumes "\<forall>r \<in> snd ` set m. P r" and "\<And>i n c. P (newReport i n c)"
  shows "\<forall>r \<in> snd ` set (seedFeatures m feats). P r"
  using assms(1)
proof (induction feats arbitrary: m)
  case Nil
  then show ?case by simp
next
  case (Cons feat feats)
  show ?case
    unfolding seedFeatures.simps
    by (rule Cons.IH, rule values_update_pres [OF Cons.prems assms(2)])
qed

lemma seedFeatureMap_values:
  assumes "\<And>i n c. P (newReport i n c)"
  shows "\<forall>r \<in> snd ` set (seedFeatureMap features). P r"
  unfolding seedFeatureMap_def
  by (rule values_update_pres [OF seedFeatures_values], simp_all add: assms)

lemma seedFeatures_keys: "fst ` set (seedFeatures m feats) = fst ` set m \<union> f_id ` set feats"
  by (induction feats arbitrary: m) (auto simp: keys_update)

lemma seedFeatureMap_keys:
  "fst ` set (seedFeatureMap features) = insert ''uncategorized'' (f_id ` set features)"
  by (simp add: seedFeatureMap_def keys_update seedFeatures_keys)

subsection \<open>Aggregation\<close>

lemma countSymbol_fields [simp]:
  "r_total (countSymbol symb r) = r_total r + 1"
  "r_functions (countSymbol symb r) + r_methods (countSymbol symb r) + r_classes (countSymbol symb r)
     = r_functions r + r_methods r + r_classes r + 1"
  "r_id (countSymbol symb r) = r_id r"
  "r_commits (countSymbol symb r) = r_commits r"
  "r_churn (countSymbol symb r) = r_churn r"
  "r_hotspotScore (countSymbol symb r) = r_hotspotScore r"
  "r_topFiles (countSymbol symb r) = r_topFiles r"
  by (simp_all add: countSymbol_def Let_def split: SymbolKind.splits)

lemma newReport_fields [simp]:
  "r_total (newReport i n c) = 0" "r_functions (newReport i n c) = 0"
  "r_methods (newReport i n c) = 0" "r_classes (newReport i n c) = 0"
  "r_commits (newReport i n c) = None" "r_churn (newReport i n c) = None"
  "r_hotspotScore (newReport i n c) = None" "r_topFiles (newReport i n c) = None"
  by (simp_all add: newReport_def)

text \<open>The bucket a symbol is counted in: the one under its feature id, or a fresh one.\<close>

lemma aggregateSymbol_eq:
  "aggregateSymbol m symb =
     AList.update (s_feature symb)
       (countSymbol symb (case map_of m (s_feature symb) of
          Some r \<Rightarrow> r | None \<Rightarrow> newReport (s_feature symb) (s_featureName symb) ''Unknown'')) m"
  by (simp add: aggregateSymbol_def split: option.splits)

lemma aggregateSymbol_values:
  assumes "\<forall>r \<in> snd ` set m. P r" and "\<And>i n c. P (newReport i n c)"
    and "\<And>s r. P r \<Longrightarrow> P (countSymbol s r)"
  shows "\<forall>r \<in> snd ` set (aggregateSymbol m symb). P r"
proof (cases "map_of m (s_feature symb)")
  case None
  then show ?thesis
    unfolding aggregateSymbol_eq
    by (intro values_update_pres assms(1)) (simp add: assms(2,3))
next
  case (Some r)
  then have "P r" using assms(1) map_of_value by fastforce
  with Some show ?thesis
    unfolding aggregateSymbol_eq
    by (intro values_update_pres assms(1)) (simp add: assms(3))
qed

lemma aggregate_values:
  assumes "\<forall>r \<in> snd ` set m. P r" and "\<And>i n c. P (newReport i n c)"
    and "\<And>s r. P r \<Longrightarrow> P (countSymbol s r)"
  shows "\<forall>r \<in> snd ` set (aggregate m symbols). P r"
  using assms(1)
proof (induction symbols arbitrary: m)
  case Nil
  then show ?case by simp
next
  case (Cons symb symbols)
  show ?case
    unfolding aggregate.simps
    by (rule Cons.IH, rule aggregateSymbol_values [OF Cons.prems assms(2,3)])
qed

lemma aggregateSymbol_sum:
  fixes g :: "FeatureReport \<Rightarrow> nat"
  assumes "\<And>s r. g (countSymbol s r) = g r + 1" and "\<And>i n c. g (newReport i n c) = 0"
  shows "(\<Sum>r\<leftarrow>map snd (aggregateSymbol m symb). g r) = (\<Sum>r\<leftarrow>map snd m. g r) + 1"
proof (cases "map_of m (s_feature symb)")
  case None
  let ?v = "countSymbol symb (newReport (s_feature symb) (s_featureName symb) ''Unknown'')"
  from sum_values_update [of g "s_feature symb" ?v m] None assms
  show ?thesis by (simp add: aggregateSymbol_eq)
next
  case (Some r)
  from sum_values_update [of g "s_feature symb" "countSymbol symb r" m] Some assms
  show ?thesis by (simp add: aggregateSymbol_eq)
qed

lemma aggregateSymbol_kinds:
  "(\<Sum>r\<leftarrow>map snd (aggregateSymbol m symb). r_functions r + r_methods r + r_classes r)
     = (\<Sum>r\<leftarrow>map snd m. r_functions r + r_methods r + r_classes r) + 1"
  by (rule aggregateSymbol_sum) simp_all

lemma aggregateSymbol_total:
  "(\<Sum>r\<leftarrow>map snd (aggregateSymbol m symb). r_total r) = (\<Sum>r\<leftarrow>map snd m. r_total r) + 1"
  by (rule aggregateSymbol_sum) simp_all

lemma aggregate_kinds:
  "(\<Sum>r\<leftarrow>map snd (aggregate m symbols). r_functions r + r_methods r + r_classes r)
     = (\<Sum>r\<leftarrow>map snd m. r_functions r + r_methods r + r_classes r) + length symbols"
proof (induction symbols arbitrary: m)
  case Nil
  show ?case by simp
next
  case (Cons symb symbols)
  show ?case
    unfolding aggregate.simps Cons.IH aggregateSymbol_kinds by simp
qed

lemma aggregate_total:
  "(\<Sum>r\<leftarrow>map snd (aggregate m symbols). r_total r) = (\<Sum>r\<leftarrow>map snd m. r_total r) + length symbols"
proof (induction symbols arbitrary: m)
  case Nil
  show ?case by simp
next
  case (Cons symb symbols)
  show ?case
    unfolding aggregate.simps Cons.IH aggregateSymbol_total by simp
qed

lemma sum_list_zero: "\<forall>x \<in> set xs. g x = (0::nat) \<Longrightarrow> (\<Sum>x\<leftarrow>xs. g x) = 0"
  by (induction xs) auto

lemma seedFeatureMap_kinds:
  "(\<Sum>r\<leftarrow>map snd (seedFeatureMap features). r_functions r + r_methods r + r_classes r) = 0"
  using seedFeatureMap_values [of "\<lambda>r. r_functions r + r_methods r + r_classes r = 0" features]
  by (intro sum_list_zero) simp

lemma seedFeatureMap_total: "(\<Sum>r\<leftarrow>map snd (seedFeatureMap features). r_total r) = 0"
  using seedFeatureMap_values [of "\<lambda>r. r_total r = 0" features]
  by (intro sum_list_zero) simp

lemma aggregate_seed_balanced:
  "\<forall>r \<in> snd ` set (aggregate (seedFeatureMap features) symbols).
     r_total r = r_functions r + r_methods r + r_classes r"
  by (rule aggregate_values [OF seedFeatureMap_values]) simp_all

lemma aggregateSymbol_other:
  "k \<noteq> s_feature symb \<Longrightarrow> map_of (aggregateSymbol m symb) k = map_of m k"
  by (simp add: aggregateSymbol_eq update_conv')

lemma aggregateSymbol_own:
  "map_of (aggregateSymbol m symb) (s_feature symb) =
     Some (countSymbol symb (case map_of m (s_feature symb) of
        Some r \<Rightarrow> r | None \<Rightarrow> newReport (s_feature symb) (s_featureName symb) ''Unknown''))"
  by (simp add: aggregateSymbol_eq update_conv')

lemma aggregateSymbol_keys:
  "fst ` set (aggregateSymbol m symb) = insert (s_feature symb) (fst ` set m)"
  by (simp add: aggregateSymbol_eq keys_update)

lemma aggregate_keys: "fst ` set (aggregate m symbols) = fst ` set m \<union> s_feature ` set symbols"
  by (induction symbols arbitrary: m) (auto simp: aggregateSymbol_keys)

text \<open>The value of one counter of one bucket after aggregation, in closed form.\<close>

lemma aggregate_field:
  fixes g :: "FeatureReport \<Rightarrow> nat"
  assumes count: "\<And>s r. g (countSymbol s r) = g r + (if P s then 1 else 0)"
    and fresh: "\<And>i n c. g (newReport i n c) = 0"
  shows "map_option g (map_of (aggregate m symbols) k) =
     (case map_of m k of
        Some r \<Rightarrow> Some (g r + length (filter (\<lambda>s. s_feature s = k \<and> P s) symbols))
      | None \<Rightarrow>
          if k \<in> s_feature ` set symbols
          then Some (length (filter (\<lambda>s. s_feature s = k \<and> P s) symbols))
          else None)"
proof (induction symbols arbitrary: m)
  case Nil
  show ?case by (simp split: option.splits)
next
  case (Cons symb symbols)
  show ?case
  proof (cases "k = s_feature symb")
    case True
    then show ?thesis
      unfolding aggregate.simps Cons.IH
      by (simp add: aggregateSymbol_own count fresh split: option.splits)
  next
    case False
    then show ?thesis
      unfolding aggregate.simps Cons.IH
      by (auto simp: aggregateSymbol_other split: option.splits)
  qed
qed

lemma filter_length_mset:
  "mset xs = mset ys \<Longrightarrow> length (filter P xs) = length (filter P ys)"
  by (metis mset_filter size_mset)

lemma aggregate_field_perm:
  fixes g :: "FeatureReport \<Rightarrow> nat"
  assumes count: "\<And>s r. g (countSymbol s r) = g r + (if P s then 1 else 0)"
    and fresh: "\<And>i n c. g (newReport i n c) = 0"
    and perm: "mset xs = mset ys"
  shows "map_option g (map_of (aggregate m xs) k) = map_option g (map_of (aggregate m ys) k)"
proof -
  from perm have "set xs = set ys" by (rule mset_eq_setD)
  moreover have "length (filter (\<lambda>s. s_feature s = k \<and> P s) xs)
      = length (filter (\<lambda>s. s_feature s = k \<and> P s) ys)"
    by (rule filter_length_mset [OF perm])
  ultimately show ?thesis
    unfolding aggregate_field [of g P, OF count fresh] by (simp split: option.splits)
qed

lemma countSymbol_each:
  "r_functions (countSymbol s r) = r_functions r + (if s_kind s = Function then 1 else 0)"
  "r_methods (countSymbol s r) = r_methods r + (if s_kind s = Method then 1 else 0)"
  "r_classes (countSymbol s r) = r_classes r + (if s_kind s = Class then 1 else 0)"
  "r_total (countSymbol s r) = r_total r + (if True then 1 else 0)"
  by (simp_all add: countSymbol_def Let_def split: SymbolKind.splits)

subsection \<open>Churn overlay\<close>

lemma overlayFile_keys: "fst ` set (overlayFile features m file) = fst ` set m"
proof (cases "map_of m (cl_id (classifySymbol (c_path file) features))")
  case None
  then show ?thesis by (simp add: overlayFile_def)
next
  case (Some r)
  then have "cl_id (classifySymbol (c_path file) features) \<in> fst ` set m"
    using map_of_keys [of m] by auto
  with Some show ?thesis
    by (auto simp: overlayFile_def keys_update)
qed

lemma overlayChurn_keys: "fst ` set (overlayChurn features m files) = fst ` set m"
  by (induction files arbitrary: m) (simp_all add: overlayFile_keys)

lemma overlayFile_values:
  assumes "\<forall>r \<in> snd ` set m. P r"
    and "\<And>r a b c. P r \<Longrightarrow> P (r\<lparr>r_commits := a, r_churn := b, r_topFiles := c\<rparr>)"
  shows "\<forall>r \<in> snd ` set (overlayFile features m file). P r"
proof (cases "map_of m (cl_id (classifySymbol (c_path file) features))")
  case None
  then show ?thesis using assms(1) by (simp add: overlayFile_def)
next
  case (Some r)
  then have "P r" using assms(1) map_of_value by fastforce
  with Some show ?thesis
    unfolding overlayFile_def Let_def
    by (simp only: option.case) (intro values_update_pres assms(1) assms(2))
qed

lemma overlayChurn_values:
  assumes "\<forall>r \<in> snd ` set m. P r"
    and "\<And>r a b c. P r \<Longrightarrow> P (r\<lparr>r_commits := a, r_churn := b, r_topFiles := c\<rparr>)"
  shows "\<forall>r \<in> snd ` set (overlayChurn features m files). P r"
  using assms(1)
proof (induction files arbitrary: m)
  case Nil
  then show ?case by simp
next
  case (Cons fc files)
  show ?case
    unfolding overlayChurn.simps
    by (rule Cons.IH, rule overlayFile_values [OF Cons.prems assms(2)])
qed

text \<open>A sum over the buckets that the overlay of one record leaves alone, or raises.\<close>

lemma overlayFile_sum:
  fixes g :: "FeatureReport \<Rightarrow> nat"
  assumes "map_of m (cl_id (classifySymbol (c_path file) features)) = Some r"
    and "g (r\<lparr>r_commits := Some (orZero (r_commits r) + c_commits file),
               r_churn := Some (orZero (r_churn r) + c_churn file),
               r_topFiles := Some ((case r_topFiles r of None \<Rightarrow> [] | Some t \<Rightarrow> t)
                  @ [\<lparr>t_path = c_path file, t_commits = c_commits file, t_churn = c_churn file\<rparr>])\<rparr>)
         = g r + d"
  shows "(\<Sum>r\<leftarrow>map snd (overlayFile features m file). g r) = (\<Sum>r\<leftarrow>map snd m. g r) + d"
proof -
  let ?i = "cl_id (classifySymbol (c_path file) features)"
  let ?v = "r\<lparr>r_commits := Some (orZero (r_commits r) + c_commits file),
               r_churn := Some (orZero (r_churn r) + c_churn file),
               r_topFiles := Some ((case r_topFiles r of None \<Rightarrow> [] | Some t \<Rightarrow> t)
                  @ [\<lparr>t_path = c_path file, t_commits = c_commits file, t_churn = c_churn file\<rparr>])\<rparr>"
  have eq: "overlayFile features m file = AList.update ?i ?v m"
    using assms(1) by (simp add: overlayFile_def Let_def)
  from sum_values_update [of g ?i ?v m] assms show ?thesis
    unfolding eq by simp
qed

lemma overlayFile_unchanged:
  fixes g :: "FeatureReport \<Rightarrow> nat"
  assumes "\<And>r a b c. g (r\<lparr>r_commits := a, r_churn := b, r_topFiles := c\<rparr>) = g r"
  shows "(\<Sum>r\<leftarrow>map snd (overlayFile features m file). g r) = (\<Sum>r\<leftarrow>map snd m. g r)"
proof (cases "map_of m (cl_id (classifySymbol (c_path file) features))")
  case None
  then show ?thesis by (simp add: overlayFile_def)
next
  case (Some r)
  from overlayFile_sum [where g = g and d = 0, OF Some] assms show ?thesis by simp
qed

lemma overlayChurn_unchanged:
  fixes g :: "FeatureReport \<Rightarrow> nat"
  assumes "\<And>r a b c. g (r\<lparr>r_commits := a, r_churn := b, r_topFiles := c\<rparr>) = g r"
  shows "(\<Sum>r\<leftarrow>map snd (overlayChurn features m files). g r) = (\<Sum>r\<leftarrow>map snd m. g r)"
proof (induction files arbitrary: m)
  case Nil
  show ?case by simp
next
  case (Cons fc files)
  show ?case
    unfolding overlayChurn.simps Cons.IH by (rule overlayFile_unchanged [of g, OF assms])
qed

subsection \<open>Scoring\<close>

lemma scoreReport_fields [simp]:
  "r_total (scoreReport r) = r_total r" "r_functions (scoreReport r) = r_functions r"
  "r_methods (scoreReport r) = r_methods r" "r_classes (scoreReport r) = r_classes r"
  "r_churn (scoreReport r) = r_churn r" "r_commits (scoreReport r) = r_commits r"
  "r_id (scoreReport r) = r_id r"
  by (simp_all add: scoreReport_def Let_def split: option.splits)

lemma scoreReport_score:
  "r_hotspotScore (scoreReport r) =
     (if orZero (r_churn r) > 0 \<and> orZero (r_commits r) > 0
      then Some (hotspot (orZero (r_churn r)) (orZero (r_commits r)))
      else r_hotspotScore r)"
  by (simp add: scoreReport_def Let_def orZero_def split: option.splits)

lemma computeHotspots_values: "map snd (computeHotspots m) = map scoreReport (map snd m)"
  by (induction m) (auto simp: computeHotspots_def)

lemma computeHotspots_keys: "map fst (computeHotspots m) = map fst m"
  by (induction m) (auto simp: computeHotspots_def)

lemma computeHotspots_map_of:
  "map_of (computeHotspots m) k = map_option scoreReport (map_of m k)"
  by (induction m) (auto simp: computeHotspots_def)

lemma computeHotspots_unchanged:
  assumes "\<And>r. g (scoreReport r) = g r"
  shows "(\<Sum>r\<leftarrow>map snd (computeHotspots m). g r) = (\<Sum>r\<leftarrow>map snd m. g r)"
  by (simp add: computeHotspots_values comp_def assms)

lemma churnStage_unchanged:
  fixes g :: "FeatureReport \<Rightarrow> nat"
  assumes "\<And>r a b c. g (r\<lparr>r_commits := a, r_churn := b, r_topFiles := c\<rparr>) = g r"
    and "\<And>r. g (scoreReport r) = g r"
  shows "(\<Sum>r\<leftarrow>map snd (churnStage since features churnData m). g r) = (\<Sum>r\<leftarrow>map snd m. g r)"
proof (cases "sinceGiven since")
  case False
  then show ?thesis by (simp add: churnStage_def)
next
  case True
  then have "(\<Sum>r\<leftarrow>map snd (churnStage since features churnData m). g r)
      = (\<Sum>r\<leftarrow>map snd (computeHotspots (overlayChurn features m churnData)). g r)"
    by (simp add: churnStage_def)
  also have "\<dots> = (\<Sum>r\<leftarrow>map snd (overlayChurn features m churnData). g r)"
    by (rule computeHotspots_unchanged [of g, OF assms(2)])
  also have "\<dots> = (\<Sum>r\<leftarrow>map snd m. g r)"
    by (rule overlayChurn_unchanged [of g, OF assms(1)])
  finally show ?thesis .
qed

lemma churnStage_values:
  assumes "\<forall>r \<in> snd ` set m. P r"
    and "\<And>r a b c. P r \<Longrightarrow> P (r\<lparr>r_commits := a, r_churn := b, r_topFiles := c\<rparr>)"
    and "\<And>r. P r \<Longrightarrow> P (scoreReport r)"
  shows "\<forall>r \<in> snd ` set (churnStage since features churnData m). P r"
proof (cases "sinceGiven since")
  case False
  then show ?thesis using assms(1) by (simp add: churnStage_def)
next
  case True
  have "\<forall>r \<in> snd ` set (overlayChurn features m churnData). P r"
    by (rule overlayChurn_values [OF assms(1,2)])
  then have "\<forall>r \<in> set (map scoreReport (map snd (overlayChurn features m churnData))). P r"
    using assms(3) by auto
  with True show ?thesis
    unfolding churnStage_def computeHotspots_values [symmetric] by simp
qed

lemma census_fields:
  "o_symbols (census sortFn relative readFile rawEntries features since churnData)
     = classifyAll features (filterSymbols relative readFile rawEntries)"
  "o_featureMap (census sortFn relative readFile rawEntries features since churnData)
     = churnStage since features churnData
         (aggregate (seedFeatureMap features)
            (classifyAll features (filterSymbols relative readFile rawEntries)))"
  "o_totalSymbols (census sortFn relative readFile rawEntries features since churnData)
     = length (filterSymbols relative readFile rawEntries)"
  "o_features (census sortFn relative readFile rawEntries features since churnData)
     = rankFeatures sortFn since (o_featureMap (census sortFn relative readFile rawEntries features since churnData))"
  "o_coverageRate (census sortFn relative readFile rawEntries features since churnData)
     = coveragePct (uncatCount (o_featureMap (census sortFn relative readFile rawEntries features since churnData)))
         (length (filterSymbols relative readFile rawEntries)) @ ''%''"
  by (simp_all add: census_def Let_def classifyAll_def)

text \<open>
  Claim C1. For every rule configuration and every list of symbols, after aggregation the
  kind counters of all buckets add up to the number of symbols, and in each bucket the total
  is the sum of its three kind counters. One symbol changes exactly one bucket, the one
  under its feature id (created on demand when missing), raising its total and one kind
  counter by one. The churn overlay leaves the counters alone, so the same holds of the
  feature map of a whole run.
\<close>

theorem C1_aggregate_counts:
  "(\<Sum>r\<leftarrow>map snd (aggregate (seedFeatureMap features) symbols).
        r_functions r + r_methods r + r_classes r) = length symbols
   \<and> (\<forall>r \<in> snd ` set (aggregate (seedFeatureMap features) symbols).
        r_total r = r_functions r + r_methods r + r_classes r)
   \<and> (\<forall>k. k \<noteq> s_feature symb \<longrightarrow> map_of (aggregateSymbol m symb) k = map_of m k)
   \<and> (\<exists>r. (map_of m (s_feature symb) = Some r
            \<or> map_of m (s_feature symb) = None
              \<and> r = newReport (s_feature symb) (s_featureName symb) ''Unknown'')
          \<and> map_of (aggregateSymbol m symb) (s_feature symb) = Some (countSymbol symb r)
          \<and> r_total (countSymbol symb r) = r_total r + 1
          \<and> r_functions (countSymbol symb r) + r_methods (countSymbol symb r)
              + r_classes (countSymbol symb r)
             = r_functions r + r_methods r + r_classes r + 1)
   \<and> (\<Sum>r\<leftarrow>map snd (o_featureMap (census sortFn relative readFile rawEntries features since churnData)).
        r_functions r + r_methods r + r_classes r)
       = o_totalSymbols (census sortFn relative readFile rawEntries features since churnData)"
proof -
  have a: "(\<Sum>r\<leftarrow>map snd (aggregate (seedFeatureMap features) symbols).
        r_functions r + r_methods r + r_classes r) = length symbols" for symbols
    unfolding aggregate_kinds seedFeatureMap_kinds by simp
  have b: "\<forall>r \<in> snd ` set (aggregate (seedFeatureMap features) symbols).
        r_total r = r_functions r + r_methods r + r_classes r"
    by (rule aggregate_seed_balanced)
  have c: "\<forall>k. k \<noteq> s_feature symb \<longrightarrow> map_of (aggregateSymbol m symb) k = map_of m k"
    by (simp add: aggregateSymbol_other)
  have d: "\<exists>r. (map_of m (s_feature symb) = Some r
            \<or> map_of m (s_feature symb) = None
              \<and> r = newReport (s_feature symb) (s_featureName symb) ''Unknown'')
          \<and> map_of (aggregateSymbol m symb) (s_feature symb) = Some (countSymbol symb r)
          \<and> r_total (countSymbol symb r) = r_total r + 1
          \<and> r_functions (countSymbol symb r) + r_methods (countSymbol symb r)
              + r_classes (countSymbol symb r)
             = r_functions r + r_methods r + r_classes r + 1"
    by (cases "map_of m (s_feature symb)") (simp_all add: aggregateSymbol_own)
  have e: "(\<Sum>r\<leftarrow>map snd (o_featureMap (census sortFn relative readFile rawEntries features since churnData)).
        r_functions r + r_methods r + r_classes r)
       = o_totalSymbols (census sortFn relative readFile rawEntries features since churnData)"
  proof -
    have "(\<Sum>r\<leftarrow>map snd (churnStage since features churnData
              (aggregate (seedFeatureMap features)
                 (classifyAll features (filterSymbols relative readFile rawEntries)))).
            r_functions r + r_methods r + r_classes r)
        = (\<Sum>r\<leftarrow>map snd (aggregate (seedFeatureMap features)
                 (classifyAll features (filterSymbols relative readFile rawEntries))).
            r_functions r + r_methods r + r_classes r)"
      by (rule churnStage_unchanged) simp_all
    also have "\<dots> = length (classifyAll features (filterSymbols relative readFile rawEntries))"
      by (rule a)
    finally show ?thesis
      unfolding census_fields by (simp add: classifyAll_def)
  qed
  from a b c d e show ?thesis by blast
qed
theorem C1_aggregate_counts_witness:
  "(\<Sum>r\<leftarrow>map snd (aggregate (seedFeatureMap exampleRules) (classifyAll exampleRules exampleSymbols)).
        r_functions r + r_methods r + r_classes r) = 4
   \<and> map (\<lambda>r. (r_id r, r_functions r, r_methods r, r_classes r, r_total r))
        (map snd (aggregate (seedFeatureMap exampleRules) (classifyAll exampleRules exampleSymbols)))
      = [(''api'', 1, 0, 0, 1), (''src'', 0, 1, 1, 2), (''uncategorized'', 1, 0, 0, 1)]"
proof -
  have len: "length (classifyAll exampleRules exampleSymbols) = 4"
    by (simp add: classifyAll_def exampleSymbols_def)
  have buckets: "map (\<lambda>r. (r_id r, r_functions r, r_methods r, r_classes r, r_total r))
        (map snd (aggregate (seedFeatureMap exampleRules) (classifyAll exampleRules exampleSymbols)))
      = [(''api'', 1, 0, 0, 1), (''src'', 0, 1, 1, 2), (''uncategorized'', 1, 0, 0, 1)]"
    by code_simp
  from C1_aggregate_counts [of exampleRules "classifyAll exampleRules exampleSymbols"] len buckets
  show ?thesis by simp
qed

text \<open>
  Claim C8. For every list of classified symbols and every permutation of it, aggregation
  from the same feature map yields, under every feature id, the same counters of functions,
  methods and classes and the same total (and a bucket under the same ids).
\<close>

theorem C8_aggregate_permutation:
  assumes "mset symbols' = mset symbols"
  shows "map_option (\<lambda>r. (r_functions r, r_methods r, r_classes r, r_total r))
           (map_of (aggregate m symbols') k)
       = map_option (\<lambda>r. (r_functions r, r_methods r, r_classes r, r_total r))
           (map_of (aggregate m symbols) k)"
proof -
  note f = aggregate_field_perm [OF countSymbol_each(1) newReport_fields(2) assms, of m k]
  note me = aggregate_field_perm [OF countSymbol_each(2) newReport_fields(3) assms, of m k]
  note c = aggregate_field_perm [OF countSymbol_each(3) newReport_fields(4) assms, of m k]
  note t = aggregate_field_perm [OF countSymbol_each(4) newReport_fields(1) assms, of m k]
  from f me c t show ?thesis
    by (cases "map_of (aggregate m symbols') k"; cases "map_of (aggregate m symbols) k") simp_all
qed

theorem C8_aggregate_permutation_witness:
  "mset (rev (classifyAll exampleRules exampleSymbols)) = mset (classifyAll exampleRules exampleSymbols)
   \<and> map_option (\<lambda>r. (r_functions r, r_methods r, r_classes r, r_total r))
        (map_of (aggregate (seedFeatureMap exampleRules) (rev (classifyAll exampleRules exampleSymbols)))
           ''src'')
      = Some (0, 1, 1, 2)"
proof -
  have p: "mset (rev (classifyAll exampleRules exampleSymbols))
      = mset (classifyAll exampleRules exampleSymbols)"
    by simp
  have e: "map_option (\<lambda>r. (r_functions r, r_methods r, r_classes r, r_total r))
        (map_of (aggregate (seedFeatureMap exampleRules) (classifyAll exampleRules exampleSymbols))
           ''src'')
      = Some (0, 1, 1, 2)"
    by code_simp
  from C8_aggregate_permutation [OF p, of "seedFeatureMap exampleRules" "''src''"] e p
  show ?thesis by simp
qed

lemma classifySymbol_id:
  "cl_id (classifySymbol p features) \<in> insert ''uncategorized'' (f_id ` set features)"
proof (cases "find (ruleMatches p) features")
  case None
  then show ?thesis by (simp add: classifySymbol_find uncategorized_def)
next
  case (Some feat)
  then have "feat \<in> set features" by (auto simp: find_Some_iff)
  with Some show ?thesis by (simp add: classifySymbol_find ruleResult_def)
qed

lemma aggregate_seed_keys:
  "fst ` set (aggregate (seedFeatureMap features) symbols)
     = insert ''uncategorized'' (f_id ` set features) \<union> s_feature ` set symbols"
  by (simp add: aggregate_keys seedFeatureMap_keys)

lemma overlay_bucket_exists:
  assumes "insert ''uncategorized'' (f_id ` set features) \<subseteq> fst ` set m"
  shows "map_of (overlayChurn features m files) (cl_id (classifySymbol p features)) \<noteq> None"
proof -
  have "cl_id (classifySymbol p features) \<in> fst ` set (overlayChurn features m files)"
    unfolding overlayChurn_keys using assms classifySymbol_id [of p features] by blast
  then show ?thesis by (simp only: map_of_keys)
qed

lemma overlayChurn_sum:
  fixes g :: "FeatureReport \<Rightarrow> nat" and w :: "FileChurn \<Rightarrow> nat"
  assumes keys: "insert ''uncategorized'' (f_id ` set features) \<subseteq> fst ` set m"
    and step: "\<And>r fc. g (r\<lparr>r_commits := Some (orZero (r_commits r) + c_commits fc),
               r_churn := Some (orZero (r_churn r) + c_churn fc),
               r_topFiles := Some ((case r_topFiles r of None \<Rightarrow> [] | Some t \<Rightarrow> t)
                  @ [\<lparr>t_path = c_path fc, t_commits = c_commits fc, t_churn = c_churn fc\<rparr>])\<rparr>)
         = g r + w fc"
  shows "(\<Sum>r\<leftarrow>map snd (overlayChurn features m files). g r)
     = (\<Sum>r\<leftarrow>map snd m. g r) + (\<Sum>fc\<leftarrow>files. w fc)"
  using keys
proof (induction files arbitrary: m)
  case Nil
  show ?case by simp
next
  case (Cons fc files)
  from Cons.prems classifySymbol_id [of "c_path fc" features]
  have "cl_id (classifySymbol (c_path fc) features) \<in> fst ` set m" by blast
  then obtain r where r: "map_of m (cl_id (classifySymbol (c_path fc) features)) = Some r"
    using map_of_keys [of m] by auto
  have one: "(\<Sum>r\<leftarrow>map snd (overlayFile features m fc). g r) = (\<Sum>r\<leftarrow>map snd m. g r) + w fc"
    by (rule overlayFile_sum [where g = g, OF r step])
  from Cons.prems have "insert ''uncategorized'' (f_id ` set features)
      \<subseteq> fst ` set (overlayFile features m fc)"
    by (simp only: overlayFile_keys)
  from Cons.IH [OF this] one show ?case by simp
qed

lemma orZero_simps [simp]: "orZero None = 0" "orZero (Some n) = n"
  by (simp_all add: orZero_def)

text \<open>
  Claim C9. The classifier returns the id of a configured rule or \<open>uncategorized\<close>, the
  seeded feature map has a bucket under exactly these ids, and aggregation and the overlay
  keep them; so at every point of the churn overlay the bucket of a churn record's feature
  exists, and the branch that skips a record without a bucket is never taken. No record is
  dropped: after the overlay the churn and the commits of all buckets add up to those of all
  records.
\<close>

theorem C9_overlay_bucket_exists:
  "cl_id (classifySymbol p features) \<in> insert ''uncategorized'' (f_id ` set features)
   \<and> fst ` set (seedFeatureMap features) = insert ''uncategorized'' (f_id ` set features)
   \<and> map_of (overlayChurn features (aggregate (seedFeatureMap features) symbols) files)
         (cl_id (classifySymbol p features)) \<noteq> None
   \<and> (\<Sum>r\<leftarrow>map snd (overlayChurn features (aggregate (seedFeatureMap features) symbols) files).
         orZero (r_churn r)) = (\<Sum>fc\<leftarrow>files. c_churn fc)
   \<and> (\<Sum>r\<leftarrow>map snd (overlayChurn features (aggregate (seedFeatureMap features) symbols) files).
         orZero (r_commits r)) = (\<Sum>fc\<leftarrow>files. c_commits fc)"
proof -
  let ?m = "aggregate (seedFeatureMap features) symbols"
  have keys: "insert ''uncategorized'' (f_id ` set features) \<subseteq> fst ` set ?m"
    unfolding aggregate_seed_keys by (rule Un_upper1)
  have fresh: "\<forall>r \<in> snd ` set ?m. r_churn r = None \<and> r_commits r = None"
    by (rule aggregate_values [OF seedFeatureMap_values]) simp_all
  then have z1: "(\<Sum>r\<leftarrow>map snd ?m. orZero (r_churn r)) = 0"
    by (intro sum_list_zero) auto
  from fresh have z2: "(\<Sum>r\<leftarrow>map snd ?m. orZero (r_commits r)) = 0"
    by (intro sum_list_zero) auto
  have churn: "(\<Sum>r\<leftarrow>map snd (overlayChurn features ?m files). orZero (r_churn r))
      = (\<Sum>fc\<leftarrow>files. c_churn fc)"
    using overlayChurn_sum [where g = "\<lambda>r. orZero (r_churn r)" and w = c_churn, OF keys, of files] z1
    by simp
  have commits: "(\<Sum>r\<leftarrow>map snd (overlayChurn features ?m files). orZero (r_commits r))
      = (\<Sum>fc\<leftarrow>files. c_commits fc)"
    using overlayChurn_sum [where g = "\<lambda>r. orZero (r_commits r)" and w = c_commits, OF keys, of files] z2
    by simp
  show ?thesis
  proof (intro conjI)
    show "cl_id (classifySymbol p features) \<in> insert ''uncategorized'' (f_id ` set features)"
      by (rule classifySymbol_id)
    show "fst ` set (seedFeatureMap features) = insert ''uncategorized'' (f_id ` set features)"
      by (rule seedFeatureMap_keys)
    show "map_of (overlayChurn features ?m files) (cl_id (classifySymbol p features)) \<noteq> None"
      by (rule overlay_bucket_exists [OF keys])
  qed (rule churn, rule commits)
qed

theorem C9_overlay_bucket_exists_witness:
  "map_of (overlayChurn exampleRules (aggregate (seedFeatureMap exampleRules)
             (classifyAll exampleRules exampleSymbols)) exampleChurn)
       (cl_id (classifySymbol ''README.md'' exampleRules)) \<noteq> None
   \<and> (\<Sum>r\<leftarrow>map snd (overlayChurn exampleRules (aggregate (seedFeatureMap exampleRules)
             (classifyAll exampleRules exampleSymbols)) exampleChurn). orZero (r_churn r)) = 150
   \<and> (\<Sum>r\<leftarrow>map snd (overlayChurn exampleRules (aggregate (seedFeatureMap exampleRules)
             (classifyAll exampleRules exampleSymbols)) exampleChurn). orZero (r_commits r)) = 7"
proof -
  have churn: "(\<Sum>fc\<leftarrow>exampleChurn. c_churn fc) = 150"
    and commits: "(\<Sum>fc\<leftarrow>exampleChurn. c_commits fc) = 7"
    by (simp_all add: exampleChurn_def)
  from C9_overlay_bucket_exists [of "''README.md''" exampleRules
      "classifyAll exampleRules exampleSymbols" exampleChurn] churn commits
  show ?thesis by simp
qed

text \<open>
  Claim C3, as the code has it. When the churn stage runs, a bucket carries a hotspot score if and only
  if its accumulated churn and its accumulated commits are both positive. The score is then
  the value of \<^verbatim>\<open>Math.round(churn * Math.sqrt(commits))\<close> in double arithmetic: the square
  root rounded to the nearest double, its product with the churn rounded to the nearest
  double, and that rounded to the nearest integer. For a square number \<open>k\<^sup>2\<close> of commits,
  with \<open>k\<close> and the product below \<open>2\<^sup>5\<^sup>3\<close>, the score is the churn times \<open>k\<close>: churn 100 with
  4 commits scores 200, and churn 50 with 1 commit scores 50.
\<close>

theorem C3_hotspot_score:
  assumes "sinceGiven since"
  shows "(\<forall>r \<in> snd ` set (churnStage since features churnData
                             (aggregate (seedFeatureMap features) symbols)).
            (r_hotspotScore r \<noteq> None \<longleftrightarrow> orZero (r_churn r) > 0 \<and> orZero (r_commits r) > 0)
          \<and> (\<forall>score. r_hotspotScore r = Some score \<longrightarrow>
                score = Math_round (toDouble (real (orZero (r_churn r))
                                      * Math_sqrt (real (orZero (r_commits r)))))))
     \<and> (\<forall>c k. k < 2 ^ 53 \<and> c * k < 2 ^ 53 \<longrightarrow> hotspot c (k * k) = int (c * k))
     \<and> hotspot 100 4 = 200 \<and> hotspot 50 1 = 50"
proof -
  let ?m = "overlayChurn features (aggregate (seedFeatureMap features) symbols) churnData"
  have "\<forall>r \<in> snd ` set (aggregate (seedFeatureMap features) symbols). r_hotspotScore r = None"
    by (rule aggregate_values [OF seedFeatureMap_values]) simp_all
  then have none: "\<forall>r \<in> snd ` set ?m. r_hotspotScore r = None"
    by (rule overlayChurn_values) simp
  have each: "(r_hotspotScore r \<noteq> None \<longleftrightarrow> orZero (r_churn r) > 0 \<and> orZero (r_commits r) > 0)
          \<and> (\<forall>score. r_hotspotScore r = Some score \<longrightarrow>
                score = Math_round (toDouble (real (orZero (r_churn r))
                                      * Math_sqrt (real (orZero (r_commits r))))))"
    if "r \<in> snd ` set (churnStage since features churnData (aggregate (seedFeatureMap features) symbols))"
    for r
  proof -
    from that assms have "r \<in> set (map snd (computeHotspots ?m))"
      by (simp add: churnStage_def)
    then obtain r0 where r0: "r0 \<in> snd ` set ?m" and r: "r = scoreReport r0"
      unfolding computeHotspots_values by auto
    from none r0 have "r_hotspotScore r0 = None" by (rule bspec)
    then show ?thesis
      unfolding r by (simp add: scoreReport_score hotspot_def)
  qed
  show ?thesis
  proof (intro conjI ballI allI impI)
    show "hotspot 100 4 = 200" by (rule hotspot_examples)
    show "hotspot 50 1 = 50" by (rule hotspot_examples)
    show "hotspot c (k * k) = int (c * k)" if "k < 2 ^ 53 \<and> c * k < 2 ^ 53" for c k
      using that by (simp add: hotspot_square)
  qed (use each in blast)+
qed

theorem C3_hotspot_score_witness:
  "sinceGiven exampleSince
   \<and> map_option (\<lambda>r. (r_churn r, r_commits r, r_hotspotScore r))
        (map_of (churnStage exampleSince exampleRules exampleChurn
                   (aggregate (seedFeatureMap exampleRules) (classifyAll exampleRules exampleSymbols)))
           ''api'')
      = Some (Some 100, Some 4, Some 200)"
proof -
  let ?ov = "overlayChurn exampleRules
      (aggregate (seedFeatureMap exampleRules) (classifyAll exampleRules exampleSymbols)) exampleChurn"
  let ?st = "churnStage exampleSince exampleRules exampleChurn
      (aggregate (seedFeatureMap exampleRules) (classifyAll exampleRules exampleSymbols))"
  have since: "sinceGiven exampleSince"
    by (simp add: sinceGiven_def exampleSince_def)
  have "map_option (\<lambda>r. (r_churn r, r_commits r)) (map_of ?ov ''api'') = Some (Some 100, Some 4)"
    by code_simp
  then obtain r0 where r0: "map_of ?ov ''api'' = Some r0"
    and c0: "r_churn r0 = Some 100" "r_commits r0 = Some 4"
    by auto
  from since r0 have r: "map_of ?st ''api'' = Some (scoreReport r0)"
    by (simp add: churnStage_def computeHotspots_map_of)
  then have "scoreReport r0 \<in> snd ` set ?st" by (rule map_of_value)
  with C3_hotspot_score [OF since, of exampleRules exampleChurn
      "classifyAll exampleRules exampleSymbols"]
  have "(r_hotspotScore (scoreReport r0) \<noteq> None
          \<longleftrightarrow> orZero (r_churn (scoreReport r0)) > 0 \<and> orZero (r_commits (scoreReport r0)) > 0)
      \<and> (\<forall>score. r_hotspotScore (scoreReport r0) = Some score \<longrightarrow>
            score = Math_round (toDouble (real (orZero (r_churn (scoreReport r0)))
                                  * Math_sqrt (real (orZero (r_commits (scoreReport r0)))))))"
    by blast
  moreover have "Math_round (toDouble (real 100 * Math_sqrt (real 4))) = 200"
    using hotspot_examples(1) by (simp only: hotspot_def)
  ultimately have "r_hotspotScore (scoreReport r0) = Some 200"
    using c0 by (auto simp: orZero_def)
  with since r c0 show ?thesis by simp
qed

text \<open>
  Claim C3 as stated takes the score for the exact product of the churn and the square root
  of the commits, rounded. The churn stage run on one record of 737838 changed lines in
  1624 commits gives the bucket the score 29734048: the double product is \<open>29734047.5\<close>,
  which \<^verbatim>\<open>Math.round\<close> takes upwards. The exact product is below \<open>29734047.5\<close> and rounds
  to 29734047.
\<close>

theorem C3_exact_product_counterexample:
  "map_option (\<lambda>r. (r_churn r, r_commits r, r_hotspotScore r))
        (map_of (churnStage exampleSince exampleRules heavyChurn
                   (aggregate (seedFeatureMap exampleRules) []))
           ''api'')
      = Some (Some 737838, Some 1624, Some 29734048)
   \<and> round (real 737838 * sqrt (real 1624)) = 29734047"
proof -
  let ?seed = "seedFeatureMap exampleRules"
  let ?ov = "overlayChurn exampleRules ?seed heavyChurn"
  have since: "sinceGiven exampleSince"
    by (simp add: sinceGiven_def exampleSince_def)
  have cl: "cl_id (classifySymbol ''src/api/users.ts'' exampleRules) = ''api''"
    by code_simp
  have "map_option (\<lambda>r. (r_churn r, r_commits r, r_hotspotScore r)) (map_of ?seed ''api'')
      = Some (None, None, None)"
    by code_simp
  then obtain r0 where r0: "map_of ?seed ''api'' = Some r0"
    and c0: "r_churn r0 = None" "r_commits r0 = None" "r_hotspotScore r0 = None"
    by auto
  define r1 where "r1 = r0\<lparr>r_commits := Some 1624, r_churn := Some 737838,
      r_topFiles := Some ((case r_topFiles r0 of None \<Rightarrow> [] | Some t \<Rightarrow> t)
         @ [\<lparr>t_path = ''src/api/users.ts'', t_commits = 1624, t_churn = 737838\<rparr>])\<rparr>"
  have "map_of ?ov ''api'' = Some r1"
    by (simp add: heavyChurn_def overlayFile_def Let_def cl r0 c0 orZero_def r1_def update_conv')
  with since have "map_of (churnStage exampleSince exampleRules heavyChurn ?seed) ''api''
      = Some (scoreReport r1)"
    by (simp add: churnStage_def computeHotspots_map_of)
  moreover have "r_churn (scoreReport r1) = Some 737838" "r_commits (scoreReport r1) = Some 1624"
    by (simp_all add: r1_def)
  moreover have "r_hotspotScore (scoreReport r1) = Some 29734048"
    by (simp add: scoreReport_score orZero_def r1_def hotspot_737838_1624)
  moreover have "round (real 737838 * sqrt (real 1624)) = 29734047"
    using exact_737838_1624 by simp
  ultimately show ?thesis by simp
qed

subsection \<open>Coverage\<close>

lemma coveragePct_zero: "coveragePct 0 0 = ''NaN''"
  by (simp add: coveragePct_def js_div_def js_one_minus_def js_times_100_def toFixed1_def)

text \<open>The double nearest to a number, from the integer nearest to its scaled value.\<close>

lemma toDouble_down_near:
  assumes "2 ^ 52 \<le> x * 2 ^ k" "x * 2 ^ k < 2 ^ 53" "\<bar>x * 2 ^ k - of_int m\<bar> < 1 / 2"
  shows "toDouble x = of_int m / 2 ^ k"
  by (simp only: toDouble_down [OF assms(1,2)] roundHalfEven_near [OF assms(3)])

lemma toDouble_down_tie:
  assumes "2 ^ 52 \<le> x * 2 ^ k" "x * 2 ^ k < 2 ^ 53" "x * 2 ^ k = of_int m + 1 / 2" "even m"
  shows "toDouble x = of_int m / 2 ^ k"
  by (simp only: toDouble_down [OF assms(1,2)] roundHalfEven_tie [OF assms(3)] assms(4) if_True)

lemma toFixed1_Fin:
  assumes "0 \<le> r" "\<lfloor>r * 10 + 1 / 2\<rfloor> = int n"
  shows "toFixed1 (Fin r) = showNat (n div 10) @ ''.'' @ showNat (n mod 10)"
  using assms by (simp add: toFixed1_def Let_def)

text \<open>
  Three uncategorized symbols of ten give \<open>70.0\<close>. Twenty-nine of eighty give \<open>63.7\<close>: the
  double of the percentage is just below \<open>63.75\<close>, which is the value of the exact
  arithmetic.
\<close>

lemma coveragePct_3_10: "coveragePct 3 10 = ''70.0''"
proof -
  have x: "toDouble (3 / 10) = 5404319552844595 / 2 ^ 54"
    using toDouble_down_near [of "3 / 10" 54 5404319552844595] by simp
  have y: "toDouble (1 - 5404319552844595 / 2 ^ 54) = 6305039478318694 / 2 ^ 53"
    using toDouble_down_tie [of "1 - 5404319552844595 / 2 ^ 54" 53 6305039478318694] by simp
  have z: "toDouble (6305039478318694 / 2 ^ 53 * 100) = 70"
    using toDouble_down_near [of "6305039478318694 / 2 ^ 53 * 100" 46 4925812092436480] by simp
  have f: "\<lfloor>(70 :: real) * 10 + 1 / 2\<rfloor> = int 700"
    by (rule floor_unique) simp_all
  have "js_div 3 10 = Fin (5404319552844595 / 2 ^ 54)"
    unfolding x [symmetric] by (simp add: js_div_def)
  then have "coveragePct 3 10 = toFixed1 (Fin 70)"
    by (simp only: coveragePct_def js_one_minus_def js_times_100_def jsnum.case y z)
  also have "\<dots> = showNat (700 div 10) @ ''.'' @ showNat (700 mod 10)"
    by (rule toFixed1_Fin [OF _ f]) simp
  also have "\<dots> = ''70.0''"
    by (simp add: digitChar_def)
  finally show ?thesis .
qed

lemma coveragePct_29_80: "coveragePct 29 80 = ''63.7''"
proof -
  have x: "toDouble (29 / 80) = 6530219459687219 / 2 ^ 54"
    using toDouble_down_near [of "29 / 80" 54 6530219459687219] by simp
  have y: "toDouble (1 - 6530219459687219 / 2 ^ 54) = 5742089524897382 / 2 ^ 53"
    using toDouble_down_tie [of "1 - 6530219459687219 / 2 ^ 54" 53 5742089524897382] by simp
  have z: "toDouble (5742089524897382 / 2 ^ 53 * 100) = 8972014882652159 / 2 ^ 47"
    using toDouble_down_near [of "5742089524897382 / 2 ^ 53 * 100" 47 8972014882652159] by simp
  have f: "\<lfloor>(8972014882652159 / 2 ^ 47 :: real) * 10 + 1 / 2\<rfloor> = int 637"
    by (rule floor_unique) simp_all
  have "js_div 29 80 = Fin (6530219459687219 / 2 ^ 54)"
    unfolding x [symmetric] by (simp add: js_div_def)
  then have "coveragePct 29 80 = toFixed1 (Fin (8972014882652159 / 2 ^ 47))"
    by (simp only: coveragePct_def js_one_minus_def js_times_100_def jsnum.case y z)
  also have "\<dots> = showNat (637 div 10) @ ''.'' @ showNat (637 mod 10)"
    by (rule toFixed1_Fin [OF _ f]) simp
  also have "\<dots> = ''63.7''"
    by (simp add: digitChar_def)
  finally show ?thesis .
qed

lemma uncatCount_zero:
  assumes "\<forall>r \<in> snd ` set m. r_total r = 0"
  shows "uncatCount m = 0"
proof (cases "map_of m ''uncategorized''")
  case None
  then show ?thesis by (simp add: uncatCount_def)
next
  case (Some r)
  then have "r \<in> snd ` set m" by (rule map_of_value)
  with assms have "r_total r = 0" by (rule bspec)
  with Some show ?thesis by (simp add: uncatCount_def)
qed

lemma census_no_symbols:
  assumes "filterSymbols relative readFile rawEntries = []"
  shows "o_coverageRate (census sortFn relative readFile rawEntries features since churnData) = ''NaN%''"
proof -
  have "\<forall>r \<in> snd ` set (aggregate (seedFeatureMap features) []). r_total r = 0"
    unfolding aggregate.simps by (rule seedFeatureMap_values) simp
  then have "\<forall>r \<in> snd ` set (churnStage since features churnData (aggregate (seedFeatureMap features) [])).
          r_total r = 0"
    by (rule churnStage_values) simp_all
  then have "uncatCount (churnStage since features churnData (aggregate (seedFeatureMap features) [])) = 0"
    by (rule uncatCount_zero)
  then show ?thesis
    by (simp add: census_fields assms classifyAll_def coveragePct_zero)
qed

lemma filterSymbols_Nil: "filterSymbols relative readFile [] = []"
  by (simp add: filterSymbols_def)

text \<open>
  Claim C4 asks that a run with no symbols computes its coverage rate without an invalid
  number. The code divides by the number of symbols without a test: with no raw entries,
  whatever the rules and the churn, the coverage rate of the report is the text \<open>NaN%\<close>.
\<close>

theorem C4_zero_symbols_coverage_NaN:
  "o_coverageRate (census sortFn relative readFile [] features since churnData) = ''NaN%''
   \<and> o_totalSymbols (census sortFn relative readFile [] features since churnData) = 0"
  by (simp add: census_no_symbols [OF filterSymbols_Nil] census_fields(3) filterSymbols_Nil)

subsection \<open>Sorting with a comparator\<close>

lemma set_insertBy: "set (insertBy cmp x ys) = insert x (set ys)"
  by (induction ys) auto

lemma mset_insertBy: "mset (insertBy cmp x ys) = add_mset x (mset ys)"
  by (induction ys) auto

lemma mset_sortBy: "mset (sortBy cmp xs) = mset xs"
  by (induction xs) (simp_all add: sortBy_def mset_insertBy)

lemma set_sortBy: "set (sortBy cmp xs) = set xs"
  using mset_sortBy [of cmp xs] by (metis set_mset_mset)

text \<open>
  For a comparator that is a consistent ordering of the elements, the insertion sort
  returns them in ascending order of the comparator, and those that compare equal in the
  order they had: it is the stable sort.
\<close>

lemma consistent_refl: "consistentComparator cmp S \<Longrightarrow> a \<in> S \<Longrightarrow> cmp a a = 0"
  unfolding consistentComparator_def by blast

lemma consistent_sym: "consistentComparator cmp S \<Longrightarrow> a \<in> S \<Longrightarrow> b \<in> S \<Longrightarrow> cmp a b = 0 \<Longrightarrow> cmp b a = 0"
  unfolding consistentComparator_def by blast

lemma consistent_eq_trans:
  "consistentComparator cmp S \<Longrightarrow> a \<in> S \<Longrightarrow> b \<in> S \<Longrightarrow> c \<in> S \<Longrightarrow> cmp a b = 0 \<Longrightarrow> cmp b c = 0
    \<Longrightarrow> cmp a c = 0"
  unfolding consistentComparator_def by blast

lemma consistent_less_trans:
  "consistentComparator cmp S \<Longrightarrow> a \<in> S \<Longrightarrow> b \<in> S \<Longrightarrow> c \<in> S \<Longrightarrow> cmp a b < 0 \<Longrightarrow> cmp b c < 0
    \<Longrightarrow> cmp a c < 0"
  unfolding consistentComparator_def by blast

lemma consistent_greater_trans:
  "consistentComparator cmp S \<Longrightarrow> a \<in> S \<Longrightarrow> b \<in> S \<Longrightarrow> c \<in> S \<Longrightarrow> cmp a b > 0 \<Longrightarrow> cmp b c > 0
    \<Longrightarrow> cmp a c > 0"
  unfolding consistentComparator_def by blast

lemma consistent_flip:
  assumes c: "consistentComparator cmp S" and S: "a \<in> S" "b \<in> S"
  shows "cmp a b > 0 \<longleftrightarrow> cmp b a < 0"
proof
  assume gt: "cmp a b > 0"
  show "cmp b a < 0"
  proof (rule ccontr)
    assume "\<not> cmp b a < 0"
    then consider "cmp b a = 0" | "cmp b a > 0" by linarith
    then show False
    proof cases
      case 1
      from consistent_sym [OF c S(2,1) 1] gt show False by simp
    next
      case 2
      from consistent_greater_trans [OF c S(1,2,1) gt 2] consistent_refl [OF c S(1)]
      show False by simp
    qed
  qed
next
  assume lt: "cmp b a < 0"
  show "cmp a b > 0"
  proof (rule ccontr)
    assume "\<not> cmp a b > 0"
    then consider "cmp a b = 0" | "cmp a b < 0" by linarith
    then show False
    proof cases
      case 1
      from consistent_sym [OF c S 1] lt show False by simp
    next
      case 2
      from consistent_less_trans [OF c S(2,1,2) lt 2] consistent_refl [OF c S(2)]
      show False by simp
    qed
  qed
qed

lemma consistent_le_trans:
  assumes c: "consistentComparator cmp S" and S: "a \<in> S" "b \<in> S" "d \<in> S"
    and ab: "cmp a b \<le> 0" and bd: "cmp b d \<le> 0"
  shows "cmp a d \<le> 0"
proof (rule ccontr)
  assume "\<not> cmp a d \<le> 0"
  then have ad: "cmp a d > 0" by simp
  then have da: "cmp d a < 0" by (simp add: consistent_flip [OF c S(1,3)])
  consider "cmp a b < 0" | "cmp a b = 0" using ab by linarith
  then show False
  proof cases
    case 1
    from consistent_less_trans [OF c S(3,1,2) da 1] have db: "cmp d b < 0" .
    then have "cmp b d > 0" by (simp add: consistent_flip [OF c S(2,3)])
    with bd show False by simp
  next
    case 2
    then have ba: "cmp b a = 0" by (rule consistent_sym [OF c S(1,2)])
    consider "cmp b d < 0" | "cmp b d = 0" using bd by linarith
    then show False
    proof cases
      case 1
      from consistent_less_trans [OF c S(2,3,1) 1 da] ba show False by simp
    next
      case 2
      from consistent_eq_trans [OF c S(1,2,3) \<open>cmp a b = 0\<close> 2] ad show False by simp
    qed
  qed
qed

lemma sorted_insertBy_cmp:
  assumes c: "consistentComparator cmp S" and "x \<in> S" "set ys \<subseteq> S"
    and "sorted_wrt (\<lambda>a b. cmp a b \<le> 0) ys"
  shows "sorted_wrt (\<lambda>a b. cmp a b \<le> 0) (insertBy cmp x ys)"
  using assms(3,4)
proof (induction ys)
  case Nil
  show ?case by simp
next
  case (Cons y ys)
  from Cons.prems have y: "y \<in> S" and ys: "set ys \<subseteq> S"
    and later: "\<forall>z \<in> set ys. cmp y z \<le> 0" and sorted: "sorted_wrt (\<lambda>a b. cmp a b \<le> 0) ys"
    by simp_all
  show ?case
  proof (cases "cmp x y \<le> 0")
    case True
    have "cmp x z \<le> 0" if "z \<in> set ys" for z
    proof -
      from that ys have z: "z \<in> S" by blast
      from later that have "cmp y z \<le> 0" by blast
      with consistent_le_trans [OF c assms(2) y z True] show ?thesis by simp
    qed
    with True Cons.prems(2) show ?thesis by simp
  next
    case False
    then have "cmp x y > 0" by simp
    then have "cmp y x < 0" by (simp only: consistent_flip [OF c assms(2) y])
    with later have "\<forall>z \<in> set (insertBy cmp x ys). cmp y z \<le> 0"
      by (simp add: set_insertBy)
    with False Cons.IH [OF ys sorted] show ?thesis by simp
  qed
qed

lemma sorted_sortBy_cmp:
  assumes c: "consistentComparator cmp S" and "set xs \<subseteq> S"
  shows "sorted_wrt (\<lambda>a b. cmp a b \<le> 0) (sortBy cmp xs)"
  using assms(2)
proof (induction xs)
  case Nil
  show ?case by (simp add: sortBy_def)
next
  case (Cons x xs)
  then have x: "x \<in> S" and xs: "set xs \<subseteq> S" by simp_all
  have "sorted_wrt (\<lambda>a b. cmp a b \<le> 0) (insertBy cmp x (sortBy cmp xs))"
    by (rule sorted_insertBy_cmp [OF c x _ Cons.IH [OF xs]]) (simp add: set_sortBy xs)
  then show ?case by (simp add: sortBy_def)
qed

lemma filter_insertBy:
  assumes c: "consistentComparator cmp S" and "x \<in> S" "set ys \<subseteq> S" "e \<in> S"
  shows "filter (\<lambda>y. cmp e y = 0) (insertBy cmp x ys)
       = (if cmp e x = 0 then x # filter (\<lambda>y. cmp e y = 0) ys else filter (\<lambda>y. cmp e y = 0) ys)"
  using assms(3)
proof (induction ys)
  case Nil
  show ?case by simp
next
  case (Cons y ys)
  then have y: "y \<in> S" and ys: "set ys \<subseteq> S" by simp_all
  show ?case
  proof (cases "cmp x y \<le> 0")
    case True
    then show ?thesis by simp
  next
    case False
    have "\<not> (cmp e x = 0 \<and> cmp e y = 0)"
    proof
      assume a: "cmp e x = 0 \<and> cmp e y = 0"
      then have "cmp x e = 0" by (simp add: consistent_sym [OF c assms(4,2)])
      from consistent_eq_trans [OF c assms(2,4) y this] a have "cmp x y = 0" by simp
      with False show False by simp
    qed
    with False Cons.IH [OF ys] show ?thesis by auto
  qed
qed

lemma sortBy_stable:
  assumes c: "consistentComparator cmp S" and "set xs \<subseteq> S" "e \<in> S"
  shows "filter (\<lambda>y. cmp e y = 0) (sortBy cmp xs) = filter (\<lambda>y. cmp e y = 0) xs"
  using assms(2)
proof (induction xs)
  case Nil
  show ?case by (simp add: sortBy_def)
next
  case (Cons x xs)
  then have x: "x \<in> S" and xs: "set xs \<subseteq> S" by simp_all
  have "filter (\<lambda>y. cmp e y = 0) (sortBy cmp (x # xs))
      = filter (\<lambda>y. cmp e y = 0) (insertBy cmp x (sortBy cmp xs))"
    by (simp add: sortBy_def)
  also have "\<dots> = (if cmp e x = 0 then x # filter (\<lambda>y. cmp e y = 0) (sortBy cmp xs)
                    else filter (\<lambda>y. cmp e y = 0) (sortBy cmp xs))"
    by (rule filter_insertBy [OF c x _ assms(3)]) (simp add: set_sortBy xs)
  finally show ?case by (simp add: Cons.IH [OF xs])
qed











section \<open>Properties of the normaliser\<close>

lemma filterPass_append:
  "filterPass relative symbols entries = symbols @ List.map_filter (filterEntry relative) entries"
  by (induction entries arbitrary: symbols) (simp_all add: map_filter_simps split: option.splits)

lemma filterEntry_noise:
  "e_name e \<in> NOISE_NAMES \<or> prefix ''__'' (e_name e) \<Longrightarrow> filterEntry relative e = None"
  by (auto simp: filterEntry_def startsWith_def)

lemma filterEntry_constant:
  assumes "e_kind e = ''constant''" "e_name e \<notin> NOISE_NAMES" "\<not> prefix ''__'' (e_name e)"
  shows "filterEntry relative e \<noteq> None \<longleftrightarrow>
     isPascalCase (e_name e) \<or> isHook (e_name e) \<or> (endsWith (e_path e) ''.tsx'' \<and> isCamelCase (e_name e))"
  using assms
  by (auto simp: filterEntry_def startsWith_def normalizeKind_def Let_def
      FUNCTION_KINDS_def METHOD_KINDS_def CLASS_KINDS_def split: option.splits)

lemma filterEntry_constant_kind:
  assumes "e_kind e = ''constant''" "filterEntry relative e = Some s"
  shows "s_kind s = Function \<and> s_name s = e_name e \<and> s_file s = relative (e_path e)
     \<and> s_line s = e_line e"
  using assms
  by (auto simp: filterEntry_def normalizeKind_def Let_def
      FUNCTION_KINDS_def METHOD_KINDS_def CLASS_KINDS_def split: option.splits if_splits)

lemma dunder_no_pattern:
  assumes "prefix ''__'' n"
  shows "\<not> isPascalCase n \<and> \<not> isHook n \<and> \<not> isCamelCase n"
proof -
  from assms obtain r where n: "n = CHR ''_'' # CHR ''_'' # r"
    by (auto simp: prefix_def)
  show ?thesis
    unfolding n by (simp add: isPascalCase_def isHook_def isCamelCase_def isUpper_def isLower_def)
qed

lemma noise_no_pattern:
  assumes "n \<in> NOISE_NAMES" "n \<noteq> ''anonymous''"
  shows "\<not> isPascalCase n \<and> \<not> isHook n \<and> \<not> isCamelCase n"
  using assms
  by (auto simp: NOISE_NAMES_def isPascalCase_def isHook_def isCamelCase_def isUpper_def isLower_def
      isAlnum_def isDigit_def)

lemma example_names:
  "\<not> isPascalCase ''MAX_RETRIES''" "\<not> isHook ''MAX_RETRIES''" "\<not> isCamelCase ''MAX_RETRIES''"
  "isHook ''useWidgetState''" "isPascalCase ''UserCard''"
  "''MAX_RETRIES'' \<notin> NOISE_NAMES" "''useWidgetState'' \<notin> NOISE_NAMES" "''UserCard'' \<notin> NOISE_NAMES"
  "\<not> prefix ''__'' ''MAX_RETRIES''" "\<not> prefix ''__'' ''useWidgetState''" "\<not> prefix ''__'' ''UserCard''"
  "prefix ''__'' ''__internalHelper''"
  by (simp_all add: NOISE_NAMES_def isPascalCase_def isHook_def isCamelCase_def isUpper_def isLower_def
      isAlnum_def isDigit_def)

text \<open>
  Claim C5. An entry whose name is in the noise set or starts with two underscores is
  dropped whatever its kind. Of the entries that rule does not drop, one of kind
  \<open>constant\<close> is kept, as a function, exactly when its name matches the capitalised pattern
  or the hook pattern, or the lower-case pattern in a \<open>.tsx\<close> file; the noise name
  \<open>anonymous\<close> is the only name for which the first rule overrides the second. So
  \<open>__internalHelper\<close> and the constant \<open>MAX_RETRIES\<close> are dropped, and the constants
  \<open>useWidgetState\<close> and \<open>UserCard\<close> are kept as functions. The first pass keeps the
  surviving entries in their order.
\<close>

theorem C5_filterEntry:
  "(e_name e \<in> NOISE_NAMES \<or> prefix ''__'' (e_name e) \<longrightarrow> filterEntry relative e = None)
   \<and> (e_kind e = ''constant'' \<and> e_name e \<notin> NOISE_NAMES \<and> \<not> prefix ''__'' (e_name e) \<longrightarrow>
        (filterEntry relative e \<noteq> None \<longleftrightarrow>
           isPascalCase (e_name e) \<or> isHook (e_name e)
           \<or> (endsWith (e_path e) ''.tsx'' \<and> isCamelCase (e_name e))))
   \<and> (e_kind e = ''constant'' \<and> e_name e \<noteq> ''anonymous'' \<longrightarrow>
        (filterEntry relative e \<noteq> None \<longleftrightarrow>
           isPascalCase (e_name e) \<or> isHook (e_name e)
           \<or> (endsWith (e_path e) ''.tsx'' \<and> isCamelCase (e_name e))))
   \<and> (e_kind e = ''constant'' \<longrightarrow>
        (\<forall>s. filterEntry relative e = Some s \<longrightarrow> s_kind s = Function \<and> s_name s = e_name e))
   \<and> (e_name e = ''__internalHelper'' \<longrightarrow> filterEntry relative e = None)
   \<and> (e_kind e = ''constant'' \<and> e_name e = ''MAX_RETRIES'' \<longrightarrow> filterEntry relative e = None)
   \<and> (e_kind e = ''constant'' \<and> (e_name e = ''useWidgetState'' \<or> e_name e = ''UserCard'') \<longrightarrow>
        (\<exists>s. filterEntry relative e = Some s \<and> s_kind s = Function))
   \<and> filterPass relative [] entries = List.map_filter (filterEntry relative) entries"
proof (intro conjI impI)
  assume "e_name e \<in> NOISE_NAMES \<or> prefix ''__'' (e_name e)"
  then show "filterEntry relative e = None" by (rule filterEntry_noise)
next
  assume "e_kind e = ''constant'' \<and> e_name e \<notin> NOISE_NAMES \<and> \<not> prefix ''__'' (e_name e)"
  then show "filterEntry relative e \<noteq> None \<longleftrightarrow>
           isPascalCase (e_name e) \<or> isHook (e_name e)
           \<or> (endsWith (e_path e) ''.tsx'' \<and> isCamelCase (e_name e))"
    using filterEntry_constant [of e relative] by blast
next
  assume a: "e_kind e = ''constant'' \<and> e_name e \<noteq> ''anonymous''"
  show "filterEntry relative e \<noteq> None \<longleftrightarrow>
           isPascalCase (e_name e) \<or> isHook (e_name e)
           \<or> (endsWith (e_path e) ''.tsx'' \<and> isCamelCase (e_name e))"
  proof (cases "e_name e \<in> NOISE_NAMES \<or> prefix ''__'' (e_name e)")
    case True
    with a have "\<not> isPascalCase (e_name e) \<and> \<not> isHook (e_name e) \<and> \<not> isCamelCase (e_name e)"
      using noise_no_pattern [of "e_name e"] dunder_no_pattern [of "e_name e"] by blast
    with filterEntry_noise [OF True, of relative] show ?thesis by simp
  next
    case False
    with a filterEntry_constant [of e relative] show ?thesis by blast
  qed
next
  assume "e_kind e = ''constant''"
  then show "\<forall>s. filterEntry relative e = Some s \<longrightarrow> s_kind s = Function \<and> s_name s = e_name e"
    using filterEntry_constant_kind [of e relative] by blast
next
  assume "e_name e = ''__internalHelper''"
  then show "filterEntry relative e = None"
    using filterEntry_noise [of e relative] example_names(12) by simp
next
  assume a: "e_kind e = ''constant'' \<and> e_name e = ''MAX_RETRIES''"
  with filterEntry_constant [of e relative] example_names
  show "filterEntry relative e = None" by simp
next
  assume a: "e_kind e = ''constant'' \<and> (e_name e = ''useWidgetState'' \<or> e_name e = ''UserCard'')"
  with filterEntry_constant [of e relative] example_names
  have "filterEntry relative e \<noteq> None" by auto
  then obtain s where s: "filterEntry relative e = Some s" by auto
  with a filterEntry_constant_kind [of e relative s] show "\<exists>s. filterEntry relative e = Some s \<and> s_kind s = Function"
    by simp
next
  show "filterPass relative [] entries = List.map_filter (filterEntry relative) entries"
    by (simp add: filterPass_append)
qed

theorem C5_filterEntry_witness:
  "filterEntry (\<lambda>p. p) (exampleEntry ''__internalHelper'' ''function'' ''src/a.ts'' 1) = None
   \<and> filterEntry (\<lambda>p. p) (exampleEntry ''MAX_RETRIES'' ''constant'' ''src/a.tsx'' 2) = None
   \<and> map_option s_kind (filterEntry (\<lambda>p. p) (exampleEntry ''useWidgetState'' ''constant'' ''src/a.ts'' 3))
       = Some Function
   \<and> map_option s_kind (filterEntry (\<lambda>p. p) (exampleEntry ''UserCard'' ''constant'' ''src/a.ts'' 4))
       = Some Function
   \<and> filterEntry (\<lambda>p. p) (exampleEntry ''retryDelay'' ''constant'' ''src/a.ts'' 5) = None
   \<and> map_option s_kind (filterEntry (\<lambda>p. p) (exampleEntry ''retryDelay'' ''constant'' ''src/a.tsx'' 5))
       = Some Function"
proof -
  note t = C5_filterEntry [where relative = "\<lambda>p. p"]
  have a: "filterEntry (\<lambda>p. p) (exampleEntry ''__internalHelper'' ''function'' ''src/a.ts'' 1) = None"
    using t [of "exampleEntry ''__internalHelper'' ''function'' ''src/a.ts'' 1"]
    by (simp add: exampleEntry_def)
  have b: "filterEntry (\<lambda>p. p) (exampleEntry ''MAX_RETRIES'' ''constant'' ''src/a.tsx'' 2) = None"
    using t [of "exampleEntry ''MAX_RETRIES'' ''constant'' ''src/a.tsx'' 2"]
    by (simp add: exampleEntry_def)
  have c: "map_option s_kind (filterEntry (\<lambda>p. p) (exampleEntry ''useWidgetState'' ''constant'' ''src/a.ts'' 3))
       = Some Function"
    using t [of "exampleEntry ''useWidgetState'' ''constant'' ''src/a.ts'' 3"]
    by (auto simp: exampleEntry_def)
  have d: "map_option s_kind (filterEntry (\<lambda>p. p) (exampleEntry ''UserCard'' ''constant'' ''src/a.ts'' 4))
       = Some Function"
    using t [of "exampleEntry ''UserCard'' ''constant'' ''src/a.ts'' 4"]
    by (auto simp: exampleEntry_def)
  have e: "filterEntry (\<lambda>p. p) (exampleEntry ''retryDelay'' ''constant'' ''src/a.ts'' 5) = None"
    "map_option s_kind (filterEntry (\<lambda>p. p) (exampleEntry ''retryDelay'' ''constant'' ''src/a.tsx'' 5))
       = Some Function"
    by code_simp+
  from a b c d e show ?thesis by simp
qed

section \<open>Properties of the orphan scanner\<close>










subsection \<open>The scan of one file\<close>



subsection \<open>The scan of all files\<close>









end
